theory Spec2Isabelle
  imports Main "HOL-Library.AList"
begin

section \<open>Reading ROTRAJ trajectory files: a model of \<open>read_traj.py\<close>\<close>

text \<open>
  The module reads the text output of the ROTRAJ trajectory model. \<open>process_metadata\<close>
  scans the header of a run file, \<open>read_traj\<close> reads the blocks of records that follow
  it into one table, and \<open>read_data\<close> reads the run files of a range of days from a
  directory. The definitions below follow the Python source function by function and
  keep its names. Exceptions are values of the type \<open>error\<close>; a function that can
  raise returns \<open>error + 'a\<close>, with \<open>Inl\<close> the exception.
\<close>

subsection \<open>Exceptions and values\<close>

datatype error =
    ValueError | TypeError | IndexError | KeyError | StopIteration | FileNotFoundError

text \<open>
  The values stored in the \<open>metadata\<close> dictionary: \<open>None\<close>, a string, an integer, a
  list of integers, a boolean, and the list of attribute names that \<open>read_traj\<close> adds.
  The dictionary keeps its keys in insertion order and assigning to a key that is
  present replaces its value in place, which is what \<open>AList.update\<close> does.
\<close>

datatype pyval =
    PNone | PStr string | PInt int | PList "int list" | PBool bool | PStrs "string list"

type_synonym metadata = "(string \<times> pyval) list"

text \<open>
  A statement that raises ends the function with its exception; otherwise the
  function goes on with the value.
\<close>

definition bind :: "error + 'a \<Rightarrow> ('a \<Rightarrow> error + 'b) \<Rightarrow> error + 'b" where
  "bind m f = (case m of Inl e \<Rightarrow> Inl e | Inr x \<Rightarrow> f x)"

subsection \<open>Strings and regular expressions\<close>

text \<open>
  Characters are bytes; the model covers ASCII text, where \<open>str.lower\<close> changes the
  letters A to Z only, \<open>\d\<close> matches the digits 0 to 9 and \<open>\s\<close> matches the
  characters 9 to 13, 28 to 31 and 32.
\<close>

definition is_digit :: "char \<Rightarrow> bool" where
  "is_digit c \<longleftrightarrow> c \<in> set ''0123456789''"

definition is_space :: "char \<Rightarrow> bool" where
  "is_space c \<longleftrightarrow>
     c \<in> set [CHR 0x09, CHR 0x0A, CHR 0x0B, CHR 0x0C, CHR 0x0D,
                CHR 0x1C, CHR 0x1D, CHR 0x1E, CHR 0x1F, CHR 0x20]"

definition lower_char :: "char \<Rightarrow> char" where
  "lower_char c =
     (case map_of (zip ''ABCDEFGHIJKLMNOPQRSTUVWXYZ'' ''abcdefghijklmnopqrstuvwxyz'') c of
        Some l \<Rightarrow> l
      | None \<Rightarrow> c)"

definition lower :: "string \<Rightarrow> string" where
  "lower s = map lower_char s"

text \<open>\<open>s.rstrip('\n')\<close> removes every trailing line feed.\<close>

definition rstrip_nl :: "string \<Rightarrow> string" where
  "rstrip_nl s = rev (dropWhile (\<lambda>c. c = CHR 0x0A) (rev s))"

fun startswith :: "string \<Rightarrow> string \<Rightarrow> bool" where
  "startswith s [] = True"
| "startswith [] (p # ps) = False"
| "startswith (c # cs) (p # ps) = (c = p \<and> startswith cs ps)"

text \<open>\<open>isin sub s\<close> is the Python test \<open>sub in s\<close>: \<open>sub\<close> occurs in \<open>s\<close>.\<close>

fun isin :: "string \<Rightarrow> string \<Rightarrow> bool" where
  "isin sub [] = (sub = [])"
| "isin sub (c # cs) = (startswith (c # cs) sub \<or> isin sub cs)"

text \<open>
  The maximal runs of elements that satisfy \<open>P\<close>, from left to right.
  \<open>re.findall('\d+', line)\<close> returns the maximal runs of digits of the line.
\<close>

function runs :: "('a \<Rightarrow> bool) \<Rightarrow> 'a list \<Rightarrow> 'a list list" where
  "runs P [] = []"
| "runs P (c # cs) =
     (if P c then (c # takeWhile P cs) # runs P (dropWhile P cs) else runs P cs)"
  by pat_completeness auto
termination
  by (relation "measure (\<lambda>(P, cs). length cs)")
     (auto simp: le_imp_less_Suc length_dropWhile_le)

definition findall_digits :: "string \<Rightarrow> string list" where
  "findall_digits line = runs is_digit line"

text \<open>\<open>int(x)\<close> on a string of digits.\<close>

definition digit_val :: "char \<Rightarrow> int" where
  "digit_val c = int (length (takeWhile (\<lambda>d. d \<noteq> c) ''0123456789''))"

definition int_of_digits :: "string \<Rightarrow> int" where
  "int_of_digits ds = foldl (\<lambda>a c. 10 * a + digit_val c) 0 ds"

text \<open>
  \<open>re.search('\d{10}', line)\<close> finds the leftmost ten consecutive digits: the first
  ten digits of the first run that has at least ten. \<open>get_date\<close> returns them, and
  returns \<open>None\<close> (by falling off its end) when there is no match.
\<close>

definition get_date :: "string \<Rightarrow> pyval" where
  "get_date line =
     (case filter (\<lambda>r. 10 \<le> length r) (findall_digits line) of
        [] \<Rightarrow> PNone
      | r # _ \<Rightarrow> PStr (take 10 r))"

text \<open>
  \<open>get_numeric\<close> (called with the default \<open>type='int'\<close> everywhere) returns the list
  of the integers of the line when there are at least two, the integer itself when
  there is one, and raises \<open>IndexError\<close> at \<open>m[0]\<close> when there is none.
\<close>

datatype numeric = Scalar int | Many "int list"

definition get_numeric :: "string \<Rightarrow> error + numeric" where
  "get_numeric line =
     (let m = map int_of_digits (findall_digits line)
      in if 1 < length m then Inr (Many m)
         else (case m of [] \<Rightarrow> Inl IndexError | x # _ \<Rightarrow> Inr (Scalar x)))"

fun numeric_val :: "numeric \<Rightarrow> pyval" where
  "numeric_val (Scalar n) = PInt n"
| "numeric_val (Many ns) = PList ns"

text \<open>
  \<open>re.split(':\s*', line)\<close> cuts the line at every colon together with the white
  space after it. Its last piece is the whole line when the line has no colon, and
  otherwise what follows the last colon and the white space after it. \<open>get_boolean\<close>
  compares that piece with \<open>'t'\<close>.
\<close>

definition split_last :: "string \<Rightarrow> string" where
  "split_last line =
     (if CHR '':'' \<in> set line
      then dropWhile is_space (rev (takeWhile (\<lambda>c. c \<noteq> CHR '':'') (rev line)))
      else line)"

definition get_boolean :: "string \<Rightarrow> pyval" where
  "get_boolean line = PBool (split_last line = ''t'')"

subsection \<open>\<open>process_metadata\<close>\<close>

text \<open>
  The \<open>if\<close>/\<open>elif\<close> chain of the loop body tests the lower-cased line for one label
  after the other; the first label found decides the branch.
\<close>

datatype label =
    TrajectoryNumber | TrajectoryBaseTime | DataBaseTime | DataInterval
  | TotalNumberOfTrajectories | NumberOfAttributes | AttributeTypes
  | NumberOfClusters | ClusterPointers | Trajectory3D | ForecastData
  | ForwardTrajectory | Unrecognised

definition label_of :: "string \<Rightarrow> label" where
  "label_of line =
     (if isin ''trajectory number'' line then TrajectoryNumber
      else if isin ''trajectory base time'' line then TrajectoryBaseTime
      else if isin ''data base time'' line then DataBaseTime
      else if isin ''data interval'' line then DataInterval
      else if isin ''total number of trajectories'' line then TotalNumberOfTrajectories
      else if isin ''number of attributes'' line then NumberOfAttributes
      else if isin ''attribute types'' line then AttributeTypes
      else if isin ''number of clusters'' line then NumberOfClusters
      else if isin ''cluster pointers'' line then ClusterPointers
      else if isin ''3d trajectory'' line then Trajectory3D
      else if isin ''forecast data'' line then ForecastData
      else if isin ''forward trajectory'' line then ForwardTrajectory
      else Unrecognised)"

text \<open>
  One pass of the loop body. \<open>raw\<close> is the line handed out by \<open>enumerate(f)\<close> and
  \<open>f\<close> the lines still in the file iterator. The pass either breaks out of the loop
  (\<open>Stop\<close>), raises, or goes on with the lines left in the iterator, the number of
  lines it took with \<open>next(f)\<close> and the new dictionary. \<open>next(f)\<close> on an exhausted
  iterator raises \<open>StopIteration\<close>.
\<close>

datatype step = Stop | Continue "string list" nat metadata

definition store_numeric :: "string \<Rightarrow> string \<Rightarrow> string list \<Rightarrow> metadata \<Rightarrow> error + step" where
  "store_numeric key line f md =
     (case get_numeric line of
        Inl e \<Rightarrow> Inl e
      | Inr v \<Rightarrow> Inr (Continue f 0 (AList.update key (numeric_val v) md)))"

definition store_next :: "string \<Rightarrow> string list \<Rightarrow> metadata \<Rightarrow> error + step" where
  "store_next key f md =
     (case f of
        [] \<Rightarrow> Inl StopIteration
      | nxt # f' \<Rightarrow>
          (case get_numeric nxt of
             Inl e \<Rightarrow> Inl e
           | Inr v \<Rightarrow> Inr (Continue f' 1 (AList.update key (numeric_val v) md))))"

definition loop_body :: "string \<Rightarrow> string list \<Rightarrow> metadata \<Rightarrow> error + step" where
  "loop_body raw f md =
     (let line = rstrip_nl (lower raw) in
      case label_of line of
        TrajectoryNumber \<Rightarrow> Inr Stop
      | TrajectoryBaseTime \<Rightarrow>
          Inr (Continue f 0 (AList.update ''trajectory base time'' (get_date line) md))
      | DataBaseTime \<Rightarrow>
          Inr (Continue f 0 (AList.update ''data base time'' (get_date line) md))
      | DataInterval \<Rightarrow>
          (case get_numeric line of
             Inl e \<Rightarrow> Inl e
           | Inr (Scalar n) \<Rightarrow> Inl TypeError
           | Inr (Many vals) \<Rightarrow>
               (if length vals = 2
                then Inr (Continue f 0
                       (AList.update ''data interval timesteps'' (PInt (vals ! 1))
                         (AList.update ''data interval hours'' (PInt (vals ! 0)) md)))
                else Inl ValueError))
      | TotalNumberOfTrajectories \<Rightarrow> store_numeric ''total number of trajectories'' line f md
      | NumberOfAttributes \<Rightarrow> store_numeric ''number of attributes'' line f md
      | AttributeTypes \<Rightarrow> store_next ''attribute types'' f md
      | NumberOfClusters \<Rightarrow> store_numeric ''number of clusters'' line f md
      | ClusterPointers \<Rightarrow> store_next ''cluster pointers'' f md
      | Trajectory3D \<Rightarrow>
          Inr (Continue f 0 (AList.update ''3d trajectory'' (get_boolean line) md))
      | ForecastData \<Rightarrow>
          Inr (Continue f 0 (AList.update ''forecast data'' (get_boolean line) md))
      | ForwardTrajectory \<Rightarrow>
          Inr (Continue f 0 (AList.update ''forward trajectory'' (get_boolean line) md))
      | Unrecognised \<Rightarrow> Inr (Continue f 0 md))"

lemma loop_body_length:
  "loop_body raw f md = Inr (Continue f' k md') \<Longrightarrow> length f = length f' + k"
  by (auto simp: loop_body_def store_numeric_def store_next_def Let_def
      split: label.splits sum.splits numeric.splits if_splits list.splits)

text \<open>
  The loop: \<open>i\<close> is the index given by \<open>enumerate\<close>, which counts the passes of the
  loop and not the lines taken by \<open>next(f)\<close>; \<open>count\<close> counts the latter. At the
  marker line the function adds \<open>i\<close> to \<open>count\<close> and breaks. When the iterator runs
  out, the loop ends and \<open>count\<close> is returned as it is.
\<close>

function scan :: "string list \<Rightarrow> nat \<Rightarrow> nat \<Rightarrow> metadata \<Rightarrow> error + (metadata \<times> nat)" where
  "scan [] i count md = Inr (md, count)"
| "scan (raw # f) i count md =
     (case loop_body raw f md of
        Inl e \<Rightarrow> Inl e
      | Inr Stop \<Rightarrow> Inr (md, count + i)
      | Inr (Continue f' k md') \<Rightarrow> scan f' (i + 1) (count + k) md')"
  by pat_completeness auto
termination
  by (relation "measure (\<lambda>(f, i, count, md). length f)")
     (auto dest: loop_body_length)

definition process_metadata :: "string list \<Rightarrow> error + (metadata \<times> nat)" where
  "process_metadata file = scan file 0 0 []"

subsection \<open>Lines of a header\<close>

text \<open>
  A raw line contains the marker when its lower-cased text contains
  \<open>trajectory number\<close>; that is the first test of the chain, so a line contains the
  marker exactly when its label is \<open>TrajectoryNumber\<close>. A line takes the next line as
  its value when the chain reaches the \<open>attribute types\<close> or the
  \<open>cluster pointers\<close> branch.
\<close>

definition line_label :: "string \<Rightarrow> label" where
  "line_label raw = label_of (rstrip_nl (lower raw))"

definition is_marker :: "string \<Rightarrow> bool" where
  "is_marker raw \<longleftrightarrow> isin ''trajectory number'' (rstrip_nl (lower raw))"

definition takes_next :: "string \<Rightarrow> bool" where
  "takes_next raw \<longleftrightarrow> line_label raw = AttributeTypes \<or> line_label raw = ClusterPointers"


text \<open>A text file whose physical lines are \<open>ls\<close>, as the file iterator hands them out.\<close>

definition file_lines :: "string list \<Rightarrow> string list" where
  "file_lines ls = map (\<lambda>l. l @ [CHR 0x0A]) ls"




subsection \<open>Properties of the header scan\<close>

lemma is_marker_label: "is_marker raw \<longleftrightarrow> line_label raw = TrajectoryNumber"
  by (simp add: is_marker_def line_label_def label_of_def)

lemma loop_body_Stop: "loop_body raw f md = Inr Stop \<longleftrightarrow> is_marker raw"
  by (auto simp: is_marker_label line_label_def loop_body_def store_numeric_def
      store_next_def Let_def
      split: label.splits sum.splits numeric.splits if_splits list.splits)

lemma loop_body_append:
  "loop_body raw f md = Inr (Continue f' k md') \<Longrightarrow>
   loop_body raw (f @ g) md = Inr (Continue (f' @ g) k md')"
  by (auto simp: loop_body_def store_numeric_def store_next_def Let_def
      split: label.splits sum.splits numeric.splits if_splits list.splits)

lemma loop_body_taken:
  "loop_body raw f md = Inr (Continue f' k md') \<Longrightarrow>
   k = (if takes_next raw then 1 else 0) \<and> f' = drop k f"
  by (auto simp: takes_next_def line_label_def loop_body_def store_numeric_def
      store_next_def Let_def
      split: label.splits sum.splits numeric.splits if_splits list.splits)

text \<open>
  A scan that ends without a marker and without an exception goes the same way when
  a marker line and anything else follow, and then stops at that marker line.
\<close>

lemma scan_append_marker:
  "\<forall>l\<in>set pre. \<not> is_marker l \<Longrightarrow> scan pre i c md0 = Inr (md, n) \<Longrightarrow> is_marker m \<Longrightarrow>
   scan (pre @ m # post) i c md0 = Inr (md, c + i + length pre)"
proof (induction pre i c md0 rule: scan.induct)
  case (1 i count md0)
  then show ?case by (simp add: loop_body_Stop[THEN iffD2])
next
  case (2 raw f i count md0)
  from "2.prems" have nm: "\<not> is_marker raw" and rest: "\<forall>l\<in>set f. \<not> is_marker l"
    by simp_all
  from nm have ns: "loop_body raw f md0 \<noteq> Inr Stop" by (simp add: loop_body_Stop)
  from "2.prems"(2) ns obtain f' k md' where
    lb: "loop_body raw f md0 = Inr (Continue f' k md')"
    and sc: "scan f' (i + 1) (count + k) md' = Inr (md, n)"
    by (auto split: sum.splits step.splits)
  from loop_body_taken[OF lb] have f': "f' = drop k f" by simp
  with rest have rest': "\<forall>l\<in>set f'. \<not> is_marker l" by (auto dest: in_set_dropD)
  have "scan (f' @ m # post) (i + 1) (count + k) md' =
        Inr (md, (count + k) + (i + 1) + length f')"
    using "2.IH"[OF lb refl rest' sc "2.prems"(3)] .
  moreover have "length f = length f' + k" using loop_body_length[OF lb] .
  ultimately show ?case using loop_body_append[OF lb, of "m # post"] by simp
qed










subsection \<open>Dates\<close>

text \<open>
  The proleptic Gregorian calendar of the \<open>datetime\<close> module: leap years, the days of
  a month, and the ordinal of a date (1 for 1 January of year 1), computed as
  \<open>date.toordinal\<close> does.
\<close>

definition is_leap :: "nat \<Rightarrow> bool" where
  "is_leap y \<longleftrightarrow> y mod 4 = 0 \<and> (y mod 100 \<noteq> 0 \<or> y mod 400 = 0)"

definition days_in_month :: "nat \<Rightarrow> nat \<Rightarrow> nat" where
  "days_in_month y m =
     (if m = 2 then (if is_leap y then 29 else 28)
      else if m = 4 \<or> m = 6 \<or> m = 9 \<or> m = 11 then 30 else 31)"

definition days_before_year :: "nat \<Rightarrow> int" where
  "days_before_year y =
     (let y1 = int y - 1 in y1 * 365 + y1 div 4 - y1 div 100 + y1 div 400)"

definition days_before_month :: "nat \<Rightarrow> nat \<Rightarrow> int" where
  "days_before_month y m = int (sum_list (map (days_in_month y) [1..<m]))"

definition ymd2ord :: "nat \<Rightarrow> nat \<Rightarrow> nat \<Rightarrow> int" where
  "ymd2ord y m d = days_before_year y + days_before_month y m + int d"

definition valid_date :: "nat \<Rightarrow> nat \<Rightarrow> nat \<Rightarrow> bool" where
  "valid_date y m d \<longleftrightarrow>
     1 \<le> y \<and> y \<le> 9999 \<and> 1 \<le> m \<and> m \<le> 12 \<and> 1 \<le> d \<and> d \<le> days_in_month y m"

text \<open>
  A \<open>datetime\<close>: the date, the second of the day, and the offset from UTC in seconds
  of an aware value (\<open>None\<close> for a naive one).
\<close>

record datetime =
  year :: nat
  month :: nat
  day :: nat
  second_of_day :: nat
  utcoffset :: "int option"

definition nat_of_digits :: "string \<Rightarrow> nat" where
  "nat_of_digits ds = nat (int_of_digits ds)"

text \<open>
  \<open>datetime.strptime(s, '%Y%m%d%H')\<close>. \<open>read_traj\<close> calls it with the value of
  \<open>get_date\<close>, which is \<open>None\<close> (a \<open>TypeError\<close>) or ten digits. Ten digits parse
  when the fields of widths 4, 2, 2 and 2 are a year from 1, a month, a day of that
  month and an hour below 24; otherwise the call raises \<open>ValueError\<close>.
\<close>

definition strptime_YmdH :: "string \<Rightarrow> error + datetime" where
  "strptime_YmdH s =
     (let y = nat_of_digits (take 4 s); m = nat_of_digits (take 2 (drop 4 s));
          d = nat_of_digits (take 2 (drop 6 s)); h = nat_of_digits (take 2 (drop 8 s))
      in if length s = 10 \<and> list_all is_digit s \<and> valid_date y m d \<and> h < 24
         then Inr \<lparr>year = y, month = m, day = d, second_of_day = h * 3600, utcoffset = None\<rparr>
         else Inl ValueError)"

text \<open>
  Time stamps of the table are counted in nanoseconds from the midnight that starts
  ordinal 0. \<open>strftime(traj_dt, '%Y-%m-%d')\<close> keeps the date of the base time and
  drops its hour, and \<open>pd.date_range\<close> starts at the midnight of that date.
\<close>

definition ns_per_day :: int where
  "ns_per_day = 86400000000000"

definition midnight :: "datetime \<Rightarrow> int" where
  "midnight t = ymd2ord (year t) (month t) (day t) * ns_per_day"

text \<open>
  \<open>pd.date_range(ts, periods=npart, freq=freq)\<close> for a frequency that is a fixed
  length of time: \<open>npart\<close> time stamps, \<open>step\<close> nanoseconds apart, from \<open>ts\<close>.
\<close>

definition date_range :: "int \<Rightarrow> nat \<Rightarrow> int \<Rightarrow> int list" where
  "date_range ts periods step = map (\<lambda>k. ts + int k * step) [0..<periods]"

subsection \<open>The attribute table\<close>

definition ATTR :: "(int \<times> string) list" where
  "ATTR =
     [(1, ''temperature (K)''),
      (3, ''potential vorticity (PVU)''),
      (4, ''specific humidity (kg/kg)''),
      (10, ''height (m)''),
      (159, ''boundary layer height (m)'')]"

text \<open>Subscription \<open>d[k]\<close> of a dictionary raises \<open>KeyError\<close> for a key that is absent.\<close>

definition lookup :: "('k \<times> 'v) list \<Rightarrow> 'k \<Rightarrow> error + 'v" where
  "lookup d k = (case map_of d k of None \<Rightarrow> Inl KeyError | Some v \<Rightarrow> Inr v)"

text \<open>The comprehension \<open>[ATTR[x] for x in codes]\<close> over a list of codes.\<close>

fun attribute_names :: "int list \<Rightarrow> error + string list" where
  "attribute_names [] = Inr []"
| "attribute_names (x # xs) =
     (case lookup ATTR x of
        Inl e \<Rightarrow> Inl e
      | Inr n \<Rightarrow>
          (case attribute_names xs of Inl e \<Rightarrow> Inl e | Inr ns \<Rightarrow> Inr (n # ns)))"

subsection \<open>The name of the file\<close>

definition basename :: "string \<Rightarrow> string" where
  "basename p = rev (takeWhile (\<lambda>c. c \<noteq> CHR ''/'') (rev p))"

text \<open>\<open>s.split(c)\<close>: the pieces of \<open>s\<close> between the occurrences of \<open>c\<close>; never empty.\<close>

fun split_on :: "char \<Rightarrow> string \<Rightarrow> string list" where
  "split_on c [] = [[]]"
| "split_on c (x # xs) =
     (if x = c then [] # split_on c xs
      else (case split_on c xs of [] \<Rightarrow> [[x]] | p # ps \<Rightarrow> (x # p) # ps))"

text \<open>\<open>fn[-2]\<close> of \<open>fn = os.path.basename(filepath).split('_')\<close>.\<close>

definition freq_token :: "string \<Rightarrow> error + string" where
  "freq_token filepath =
     (let fn = split_on CHR ''_'' (basename filepath)
      in if length fn < 2 then Inl IndexError else Inr (fn ! (length fn - 2)))"

subsection \<open>The reader of \<open>pandas\<close>\<close>

text \<open>
  \<open>pd.read_csv\<close> belongs to a library, not to this module; the model keeps what
  \<open>read_traj\<close> relies on. The reader skips the first \<open>skiprows\<close> physical lines, drops
  the lines that hold no field (\<open>skip_blank_lines\<close> is on by default), takes the
  first line left as the header row (\<open>header=0\<close>, replaced by \<open>names\<close>) and hands out
  the others as records, in order. A record is the list of the fields of its line,
  cut at white space; the first field is the index column \<open>STEP\<close>. Fields are kept
  as text: the conversion of a column to numbers, quoting and the errors of the
  tokenizer on ragged lines are outside the model.
\<close>

definition is_blank :: "char \<Rightarrow> bool" where
  "is_blank c \<longleftrightarrow> c \<in> set [CHR 0x20, CHR 0x09, CHR 0x0A, CHR 0x0D]"

definition split_fields :: "string \<Rightarrow> string list" where
  "split_fields line = runs (\<lambda>c. \<not> is_blank c) line"

type_synonym chunk = "string list list"

text \<open>
  The state of the reader: the records not yet handed out, and whether the next
  read is the first. \<open>get_chunk(n)\<close> hands out the next \<open>n\<close> records, or as many as
  are left. When none is left it raises \<open>StopIteration\<close>, except on the first read
  of the reader, which returns an empty frame.
\<close>

record reader =
  records :: "string list list"
  first_chunk :: bool

definition read_csv :: "string list \<Rightarrow> nat \<Rightarrow> reader" where
  "read_csv file skiprows =
     \<lparr>records = drop 1 (filter (\<lambda>r. r \<noteq> []) (map split_fields (drop skiprows file))),
      first_chunk = True\<rparr>"

definition get_chunk :: "reader \<Rightarrow> nat \<Rightarrow> error + (chunk \<times> reader)" where
  "get_chunk rd n =
     (if records rd = []
      then (if first_chunk rd then Inr ([], rd\<lparr>first_chunk := False\<rparr>)
            else Inl StopIteration)
      else Inr (take n (records rd),
                \<lparr>records = drop n (records rd), first_chunk = False\<rparr>))"

text \<open>
  The table: the names of its columns and its rows in order. A row carries the two
  levels of its index, the time stamp \<open>READ\<close> and the field \<open>STEP\<close>, and its other
  fields.
\<close>

type_synonym row = "int \<times> string \<times> string list"

record run_table =
  columns :: "string list"
  rows :: "row list"

text \<open>
  \<open>pd.concat(objs, keys=keys)\<close>: an empty list of objects is an error; the objects
  that are \<open>None\<close> are dropped together with their keys; when all are \<open>None\<close> that is
  an error; the rows of each object left are put under its key, in order.
\<close>

definition keyed :: "int \<Rightarrow> chunk \<Rightarrow> row list" where
  "keyed k c = map (\<lambda>r. (k, hd r, tl r)) c"

fun clean :: "int list \<Rightarrow> chunk option list \<Rightarrow> (int \<times> chunk) list" where
  "clean (k # ks) (None # vs) = clean ks vs"
| "clean (k # ks) (Some v # vs) = (k, v) # clean ks vs"
| "clean _ _ = []"

definition concat_keys :: "chunk option list \<Rightarrow> int list \<Rightarrow> error + row list" where
  "concat_keys objs keys =
     (if objs = [] then Inl ValueError
      else if clean keys objs = [] then Inl ValueError
      else Inr (concat (map (\<lambda>(k, v). keyed k v) (clean keys objs))))"

subsection \<open>\<open>read_traj\<close>\<close>

definition nts :: nat where
  "nts = 88"

text \<open>
  The \<open>while\<close> loop of \<open>read_traj\<close>. A \<open>StopIteration\<close> from either read leaves the
  loop; the chunk stored before the second read stays in the list.
\<close>

function read_loop ::
  "reader \<Rightarrow> nat \<Rightarrow> nat \<Rightarrow> chunk option list \<Rightarrow> chunk option list" where
  "read_loop rd npart i traj_list =
     (if i < npart
      then (case get_chunk rd (nts + 1) of
              Inl e \<Rightarrow> traj_list
            | Inr (chunk, rd1) \<Rightarrow>
                (case get_chunk rd1 2 of
                   Inl e \<Rightarrow> traj_list[i := Some chunk]
                 | Inr (sep, rd2) \<Rightarrow> read_loop rd2 npart (i + 1) (traj_list[i := Some chunk])))
      else traj_list)"
  by pat_completeness auto
termination
  by (relation "measure (\<lambda>(rd, npart, i, traj_list). npart - i)") auto

text \<open>
  \<open>read_traj\<close> on a file given by its path and its lines, in two parts. The first
  part is the source up to the computation of the attribute names: it gives the
  dictionary with the names added, the count of \<open>process_metadata\<close>, the frequency
  string, the base time, the number of trajectories as stored and the names. The
  statements follow the order of the source, which decides the exception raised when
  several apply.
\<close>

definition read_header ::
  "string \<Rightarrow> string list \<Rightarrow>
   error + (metadata \<times> nat \<times> string \<times> datetime \<times> pyval \<times> string list)" where
  "read_header filepath file =
     bind (process_metadata file) (\<lambda>(metadata, end).
     bind (freq_token filepath) (\<lambda>freq.
     bind (lookup metadata ''trajectory base time'') (\<lambda>base.
     bind (case base of PStr s \<Rightarrow> strptime_YmdH s | _ \<Rightarrow> Inl TypeError) (\<lambda>traj_dt.
     bind (lookup metadata ''total number of trajectories'') (\<lambda>npart.
     bind (lookup metadata ''attribute types'') (\<lambda>types.
     bind (case types of PList codes \<Rightarrow> attribute_names codes | _ \<Rightarrow> Inl TypeError) (\<lambda>names.
     Inr (AList.update ''attribute names'' (PStrs names) metadata,
          end, freq, traj_dt, npart, names))))))))"

text \<open>
  The second part: the list of \<open>npart\<close> empty slots (a \<open>TypeError\<close> when \<open>npart\<close>
  is a list), the reader, the loop, and the table. \<open>to_offset\<close> stands for the
  conversion of a frequency string by \<open>pandas\<close>, which is not part of this module: it
  gives the length of the frequency in nanoseconds, or raises.
\<close>

definition read_traj_lines ::
  "(string \<Rightarrow> error + int) \<Rightarrow> string \<Rightarrow> string list \<Rightarrow> error + (run_table \<times> metadata)" where
  "read_traj_lines to_offset filepath file =
     (case read_header filepath file of
        Inl e \<Rightarrow> Inl e
      | Inr (metadata, end, freq, traj_dt, npart, names) \<Rightarrow>
          (let col_names = [''STEP'', ''HOURS'', ''LAT'', ''LON'', ''P (MB)''] @ names;
               skip_rows = end + 1
           in case npart of
                PInt n \<Rightarrow>
                  (let traj_list = read_loop (read_csv file skip_rows) (nat n) 0
                                     (replicate (nat n) None)
                   in case to_offset freq of
                        Inl e \<Rightarrow> Inl e
                      | Inr step \<Rightarrow>
                          (case concat_keys traj_list
                                  (date_range (midnight traj_dt) (nat n) step) of
                             Inl e \<Rightarrow> Inl e
                           | Inr rs \<Rightarrow> Inr (\<lparr>columns = tl col_names, rows = rs\<rparr>, metadata)))
              | _ \<Rightarrow> Inl TypeError))"

declare read_loop.simps [simp del]

subsection \<open>The blocks of a stream of records\<close>

text \<open>
  What the loop takes from the records of a file: windows of \<open>nts + 1\<close> records, each
  followed by two records that are read and dropped. The last window may be short.
\<close>

function blocks :: "'a list \<Rightarrow> 'a list list" where
  "blocks rs = (if rs = [] then [] else take (nts + 1) rs # blocks (drop (nts + 3) rs))"
  by pat_completeness auto
termination
  by (relation "measure length") (auto simp: nts_def)

declare blocks.simps [simp del]

fun store :: "nat \<Rightarrow> 'a list \<Rightarrow> 'a option list \<Rightarrow> 'a option list" where
  "store i [] xs = xs"
| "store i (b # bs) xs = store (i + 1) bs (xs[i := Some b])"

lemma read_loop_blocks:
  "\<not> first_chunk rd \<or> records rd \<noteq> [] \<Longrightarrow>
   read_loop rd npart i traj_list = store i (take (npart - i) (blocks (records rd))) traj_list"
proof (induction rd npart i traj_list rule: read_loop.induct)
  case (1 rd npart i traj_list)
  show ?case
  proof (cases "i < npart")
    case False
    then show ?thesis by (simp add: read_loop.simps[of rd npart i])
  next
    case lt: True
    then obtain d where d: "npart - i = Suc d" by (cases "npart - i") auto
    show ?thesis
    proof (cases "records rd = []")
      case True
      with 1(2) have "\<not> first_chunk rd" by simp
      with True lt show ?thesis
        by (simp add: read_loop.simps[of rd npart i] get_chunk_def blocks.simps[of "[]"])
    next
      case ne: False
      define rd1 where "rd1 = \<lparr>records = drop (nts + 1) (records rd), first_chunk = False\<rparr>"
      have g1: "get_chunk rd (nts + 1) = Inr (take (nts + 1) (records rd), rd1)"
        using ne by (simp add: get_chunk_def rd1_def)
      have bl: "blocks (records rd) =
                take (nts + 1) (records rd) # blocks (drop (nts + 3) (records rd))"
        using ne by (simp add: blocks.simps[of "records rd"])
      show ?thesis
      proof (cases "records rd1 = []")
        case True
        then have g2: "get_chunk rd1 2 = Inl StopIteration"
          by (simp add: get_chunk_def rd1_def)
        from True have "drop (nts + 3) (records rd) = []" by (simp add: rd1_def)
        then have "blocks (records rd) = [take (nts + 1) (records rd)]"
          using bl by (simp add: blocks.simps[of "[]"])
        with lt g1 g2 d show ?thesis
          by (simp add: read_loop.simps[of rd npart i])
      next
        case False
        define rd2 where "rd2 = \<lparr>records = drop 2 (records rd1), first_chunk = False\<rparr>"
        have g2: "get_chunk rd1 2 = Inr (take 2 (records rd1), rd2)"
          using False by (simp add: get_chunk_def rd2_def)
        have r2: "records rd2 = drop (nts + 3) (records rd)"
        proof -
          have "records rd2 = drop 2 (drop (nts + 1) (records rd))"
            by (simp add: rd2_def rd1_def)
          also have "\<dots> = drop (2 + (nts + 1)) (records rd)" by (rule drop_drop)
          also have "2 + (nts + 1) = nts + 3" by arith
          finally show ?thesis .
        qed
        have "read_loop rd2 npart (i + 1) (traj_list[i := Some (take (nts + 1) (records rd))]) =
              store (i + 1) (take (npart - (i + 1)) (blocks (records rd2)))
                (traj_list[i := Some (take (nts + 1) (records rd))])"
          using 1(1)[OF lt g1 refl g2 refl] by (simp add: rd2_def)
        moreover have "npart - (i + 1) = d" using d by simp
        ultimately show ?thesis using lt g1 g2 d bl r2
          by (simp add: read_loop.simps[of rd npart i])
      qed
    qed
  qed
qed

lemma read_loop_empty_first:
  "first_chunk rd \<Longrightarrow> records rd = [] \<Longrightarrow>
   read_loop rd npart 0 traj_list = (if 0 < npart then traj_list[0 := Some []] else traj_list)"
  by (simp add: read_loop.simps[of rd npart 0] get_chunk_def)

lemma store_eq:
  "i + length bs \<le> length xs \<Longrightarrow>
   store i bs xs = take i xs @ map Some bs @ drop (i + length bs) xs"
proof (induction bs arbitrary: i xs)
  case Nil
  then show ?case by simp
next
  case (Cons b bs)
  from Cons.prems have i: "i < length xs" by simp
  have "store i (b # bs) xs = store (i + 1) bs (xs[i := Some b])" by simp
  also have "\<dots> = take (i + 1) (xs[i := Some b]) @ map Some bs @
                  drop (i + 1 + length bs) (xs[i := Some b])"
    using Cons.prems by (intro Cons.IH) simp
  also have "take (i + 1) (xs[i := Some b]) = take i xs @ [Some b]"
    using i by (simp add: take_Suc_conv_app_nth)
  also have "drop (i + 1 + length bs) (xs[i := Some b]) = drop (i + length (b # bs)) xs"
    by simp
  finally show ?case by simp
qed

lemma clean_None: "clean ks (replicate n None) = []"
proof (induction n arbitrary: ks)
  case 0
  show ?case by (cases ks) simp_all
next
  case (Suc n)
  show ?case by (cases ks) (simp_all add: Suc)
qed

lemma clean_Some:
  "length bs \<le> length ks \<Longrightarrow>
   clean ks (map Some bs @ replicate n None) = zip (take (length bs) ks) bs"
proof (induction bs arbitrary: ks)
  case Nil
  then show ?case by (simp add: clean_None)
next
  case (Cons b bs)
  then obtain k ks' where "ks = k # ks'" by (cases ks) auto
  with Cons show ?case by simp
qed


text \<open>
  The chunks that the loop stores from a fresh reader: an empty chunk in the first
  slot when the file has no record, and otherwise the first \<open>p\<close> blocks. The rows of
  the table put the blocks under the time stamps of \<open>date_range\<close>, in order.
\<close>

definition blocks_read :: "nat \<Rightarrow> 'a list list \<Rightarrow> 'a list list list" where
  "blocks_read p rs = (if rs = [] then (if 0 < p then [[]] else []) else take p (blocks rs))"

definition flat :: "(int \<times> chunk) list \<Rightarrow> row list" where
  "flat kbs = concat (map (\<lambda>(k, v). keyed k v) kbs)"

definition table_rows :: "int \<Rightarrow> int \<Rightarrow> chunk list \<Rightarrow> row list" where
  "table_rows t0 step bs = flat (zip (date_range t0 (length bs) step) bs)"

lemma blocks_read_length: "length (blocks_read p rs) \<le> p"
  by (simp add: blocks_read_def)

lemma blocks_ne: "rs \<noteq> [] \<Longrightarrow> blocks rs \<noteq> []"
  by (simp add: blocks.simps[of rs])

lemma blocks_read_ne: "0 < p \<Longrightarrow> blocks_read p rs \<noteq> []"
  by (auto simp: blocks_read_def blocks_ne take_eq_Nil)

lemma traj_list_eq:
  "read_loop (read_csv file k) p 0 (replicate p None) =
   map Some (blocks_read p (records (read_csv file k))) @
   replicate (p - length (blocks_read p (records (read_csv file k)))) None"
proof (cases "records (read_csv file k) = []")
  case True
  have fc: "first_chunk (read_csv file k)" by (simp add: read_csv_def)
  show ?thesis
  proof (cases p)
    case 0
    with True fc show ?thesis
      by (simp add: read_loop_empty_first blocks_read_def)
  next
    case (Suc q)
    with True fc show ?thesis
      by (simp add: read_loop_empty_first blocks_read_def)
  qed
next
  case False
  let ?bs = "take p (blocks (records (read_csv file k)))"
  have "read_loop (read_csv file k) p 0 (replicate p None) = store 0 ?bs (replicate p None)"
    using False read_loop_blocks[of "read_csv file k" p 0 "replicate p None"] by simp
  also have "\<dots> = take 0 (replicate p None) @ map Some ?bs @
                  drop (0 + length ?bs) (replicate p None)"
    by (rule store_eq) simp
  finally show ?thesis using False by (simp add: blocks_read_def)
qed

lemma date_range_length [simp]: "length (date_range t0 n step) = n"
  by (simp add: date_range_def)

lemma date_range_take: "m \<le> n \<Longrightarrow> take m (date_range t0 n step) = date_range t0 m step"
  by (simp add: date_range_def take_map min_def)

lemma concat_keys_eq:
  assumes "length bs \<le> p" and "0 < p \<longrightarrow> bs \<noteq> []"
  shows "concat_keys (map Some bs @ replicate (p - length bs) None) (date_range t0 p step) =
         (if p = 0 then Inl ValueError else Inr (table_rows t0 step bs))"
proof (cases "p = 0")
  case True
  with assms show ?thesis by (simp add: concat_keys_def)
next
  case False
  with assms have ne: "bs \<noteq> []" by simp
  have cl: "clean (date_range t0 p step) (map Some bs @ replicate (p - length bs) None) =
            zip (date_range t0 (length bs) step) bs"
    using assms(1) by (simp add: clean_Some date_range_take)
  have "zip (date_range t0 (length bs) step) bs \<noteq> []"
    using ne by (cases bs) (simp_all add: date_range_def upt_rec)
  with False ne cl show ?thesis
    by (simp add: concat_keys_def table_rows_def flat_def)
qed

lemma read_traj_lines_eq:
  assumes "read_header filepath file = Inr (md, end, freq, dt, PInt (int p), names)"
    and "to_offset freq = Inr step"
  shows "read_traj_lines to_offset filepath file =
         (if p = 0 then Inl ValueError
          else Inr (\<lparr>columns = [''HOURS'', ''LAT'', ''LON'', ''P (MB)''] @ names,
                     rows = table_rows (midnight dt) step
                              (blocks_read p (records (read_csv file (end + 1))))\<rparr>, md))"
proof -
  let ?bs = "blocks_read p (records (read_csv file (end + 1)))"
  have tl: "read_loop (read_csv file (end + 1)) p 0 (replicate p None) =
            map Some ?bs @ replicate (p - length ?bs) None"
    by (rule traj_list_eq)
  have ck: "concat_keys (map Some ?bs @ replicate (p - length ?bs) None)
              (date_range (midnight dt) p step) =
            (if p = 0 then Inl ValueError else Inr (table_rows (midnight dt) step ?bs))"
    by (rule concat_keys_eq) (simp_all add: blocks_read_length blocks_read_ne)
  show ?thesis
    by (simp only: read_traj_lines_def assms Let_def tl ck nat_int
          prod.case sum.case pyval.case) simp
qed


subsection \<open>The index of the table\<close>

text \<open>
  The outer level of the index lists the time stamps of the rows, each once, in the
  order of their first occurrence; \<open>rows_under\<close> gives the rows of a time stamp, and
  \<open>index_pairs\<close> the pair of index values of every row.
\<close>

function unique :: "'a list \<Rightarrow> 'a list" where
  "unique [] = []"
| "unique (x # xs) = x # unique (filter (\<lambda>y. y \<noteq> x) xs)"
  by pat_completeness auto
termination
  by (relation "measure length") (auto simp: le_imp_less_Suc)

definition outer_index :: "run_table \<Rightarrow> int list" where
  "outer_index t = unique (map fst (rows t))"

definition rows_under :: "int \<Rightarrow> run_table \<Rightarrow> row list" where
  "rows_under k t = filter (\<lambda>r. fst r = k) (rows t)"


lemma flat_Nil [simp]: "flat [] = []"
  by (simp add: flat_def)

lemma flat_Cons [simp]: "flat ((k, v) # kbs) = keyed k v @ flat kbs"
  by (simp add: flat_def)

lemma fst_keyed [simp]: "map fst (keyed k v) = replicate (length v) k"
  by (simp add: keyed_def map_replicate_const[symmetric] comp_def)

lemma set_fst_flat: "set (map fst (flat kbs)) \<subseteq> set (map fst kbs)"
proof (induction kbs)
  case Nil
  show ?case by simp
next
  case (Cons kv kbs)
  obtain k v where kv: "kv = (k, v)" by (cases kv)
  have "set (map fst (flat (kv # kbs))) = set (replicate (length v) k) \<union> set (map fst (flat kbs))"
    using kv by simp
  also have "\<dots> \<subseteq> insert k (set (map fst kbs))"
    using Cons.IH by (auto split: if_splits)
  finally show ?case using kv by simp
qed

lemma unique_notin: "x \<notin> set xs \<Longrightarrow> filter (\<lambda>y. y \<noteq> x) xs = xs"
  by (induction xs) auto

lemma unique_replicate_append:
  "0 < n \<Longrightarrow> k \<notin> set ys \<Longrightarrow> unique (replicate n k @ ys) = k # unique ys"
  by (cases n) (simp_all add: unique_notin)

lemma unique_flat:
  "distinct (map fst kbs) \<Longrightarrow> \<forall>kv\<in>set kbs. snd kv \<noteq> [] \<Longrightarrow>
   unique (map fst (flat kbs)) = map fst kbs"
proof (induction kbs)
  case Nil
  then show ?case by simp
next
  case (Cons kv kbs)
  obtain k v where kv: "kv = (k, v)" by (cases kv)
  from Cons.prems kv have "k \<notin> set (map fst kbs)" by simp
  with set_fst_flat[of kbs] have nin: "k \<notin> set (map fst (flat kbs))" by blast
  from Cons.prems kv have "0 < length v" by simp
  with nin Cons kv show ?case by (simp add: unique_replicate_append)
qed

lemma filter_keyed_same [simp]: "filter (\<lambda>r. fst r = k) (keyed k v) = keyed k v"
  by (simp add: keyed_def)

lemma filter_keyed_other [simp]: "k' \<noteq> k \<Longrightarrow> filter (\<lambda>r. fst r = k) (keyed k' v) = []"
  by (simp add: keyed_def)

lemma filter_flat_notin:
  "k \<notin> set (map fst kbs) \<Longrightarrow> filter (\<lambda>r. fst r = k) (flat kbs) = []"
  by (induction kbs) auto

lemma filter_flat:
  "distinct (map fst kbs) \<Longrightarrow> (k, v) \<in> set kbs \<Longrightarrow>
   filter (\<lambda>r. fst r = k) (flat kbs) = keyed k v"
proof (induction kbs)
  case Nil
  then show ?case by simp
next
  case (Cons kv kbs)
  obtain k' v' where kv: "kv = (k', v')" by (cases kv)
  show ?case
  proof (cases "k' = k")
    case True
    with Cons.prems kv have "v' = v" by (auto simp: image_iff)
    moreover from Cons.prems kv True have "k \<notin> set (map fst kbs)" by simp
    ultimately show ?thesis using kv True by (simp add: filter_flat_notin)
  next
    case False
    with Cons kv show ?thesis by auto
  qed
qed



lemma date_range_distinct: "step \<noteq> 0 \<Longrightarrow> distinct (date_range t0 n step)"
  by (auto simp: date_range_def distinct_map inj_on_def)


lemma date_range_nth: "i < n \<Longrightarrow> date_range t0 n step ! i = t0 + int i * step"
  by (simp add: date_range_def)

lemma take_blocks:
  "(nts + 3) * p \<le> length rs + 2 \<Longrightarrow>
   take p (blocks rs) = map (\<lambda>i. take (nts + 1) (drop (i * (nts + 3)) rs)) [0..<p]"
proof (induction p arbitrary: rs)
  case 0
  show ?case by simp
next
  case (Suc p)
  from Suc.prems have ne: "rs \<noteq> []" by (auto simp: nts_def)
  have small: "(nts + 3) * p \<le> length (drop (nts + 3) rs) + 2"
    using Suc.prems by (cases "nts + 3 \<le> length rs") (auto simp: nts_def)
  have "take (Suc p) (blocks rs) =
        take (nts + 1) rs # take p (blocks (drop (nts + 3) rs))"
    using ne by (simp add: blocks.simps[of rs])
  also have "take p (blocks (drop (nts + 3) rs)) =
             map (\<lambda>i. take (nts + 1) (drop (i * (nts + 3)) (drop (nts + 3) rs))) [0..<p]"
    by (rule Suc.IH[OF small])
  also have "\<dots> = map (\<lambda>i. take (nts + 1) (drop (Suc i * (nts + 3)) rs)) [0..<p]"
    by (simp add: add.commute)
  also have "take (nts + 1) rs # \<dots> =
             map (\<lambda>i. take (nts + 1) (drop (i * (nts + 3)) rs)) (0 # map Suc [0..<p])"
    by (simp add: comp_def)
  also have "0 # map Suc [0..<p] = [0..<Suc p]"
    by (simp add: upt_conv_Cons map_Suc_upt del: upt_Suc)
  finally show ?case .
qed

lemma length_blocks_le: "length rs \<le> (nts + 3) * m \<Longrightarrow> length (blocks rs) \<le> m"
proof (induction m arbitrary: rs)
  case 0
  then show ?case by (simp add: blocks.simps[of "[]"])
next
  case (Suc m)
  show ?case
  proof (cases "rs = []")
    case True
    then show ?thesis by (simp add: blocks.simps[of "[]"])
  next
    case False
    have "length (drop (nts + 3) rs) \<le> (nts + 3) * m" using Suc.prems by simp
    from Suc.IH[OF this] False show ?thesis by (simp add: blocks.simps[of rs])
  qed
qed

lemma blocks_exact:
  assumes "(nts + 3) * m \<le> length rs + 2" and "length rs \<le> (nts + 3) * m" and "m \<le> p"
  shows "take p (blocks rs) = map (\<lambda>i. take (nts + 1) (drop (i * (nts + 3)) rs)) [0..<m]"
proof -
  have t: "take m (blocks rs) = map (\<lambda>i. take (nts + 1) (drop (i * (nts + 3)) rs)) [0..<m]"
    by (rule take_blocks[OF assms(1)])
  then have "length (take m (blocks rs)) = m" by simp
  then have "m \<le> length (blocks rs)" by simp
  with length_blocks_le[OF assms(2)] have "length (blocks rs) = m" by simp
  with assms(3) t show ?thesis by simp
qed


lemma table_rows_blocks_read:
  "table_rows t0 step (blocks_read p rs) = table_rows t0 step (take p (blocks rs))"
  by (simp add: blocks_read_def table_rows_def blocks.simps[of "[]"] date_range_def keyed_def)

lemma table_rows_map:
  "table_rows t0 step (map f [0..<m]) =
   concat (map (\<lambda>i. keyed (t0 + int i * step) (f i)) [0..<m])"
proof -
  have "zip (date_range t0 m step) (map f [0..<m]) = map (\<lambda>i. (t0 + int i * step, f i)) [0..<m]"
    by (simp add: date_range_def zip_map_map zip_same_conv_map)
  then show ?thesis by (simp add: table_rows_def flat_def comp_def)
qed

lemma fst_zip_date_range:
  "map fst (zip (date_range t0 (length bs) step) bs) = date_range t0 (length bs) step"
  by (simp add: map_fst_zip)

lemma outer_index_table_rows:
  assumes "step \<noteq> 0" and "\<forall>b\<in>set bs. b \<noteq> []"
  shows "unique (map fst (table_rows t0 step bs)) = date_range t0 (length bs) step"
proof -
  have "unique (map fst (flat (zip (date_range t0 (length bs) step) bs))) =
        map fst (zip (date_range t0 (length bs) step) bs)"
  proof (rule unique_flat)
    show "distinct (map fst (zip (date_range t0 (length bs) step) bs))"
      using assms(1) by (simp add: fst_zip_date_range date_range_distinct)
    show "\<forall>kv\<in>set (zip (date_range t0 (length bs) step) bs). snd kv \<noteq> []"
      using assms(2) by (auto dest: set_zip_rightD)
  qed
  then show ?thesis by (simp add: table_rows_def fst_zip_date_range)
qed

lemma rows_under_table_rows:
  assumes "step \<noteq> 0" and "i < length bs"
  shows "filter (\<lambda>r. fst r = t0 + int i * step) (table_rows t0 step bs) =
         keyed (t0 + int i * step) (bs ! i)"
proof -
  have "(t0 + int i * step, bs ! i) \<in> set (zip (date_range t0 (length bs) step) bs)"
    using assms(2) by (auto simp: set_zip date_range_nth intro!: exI[of _ i])
  moreover have "distinct (map fst (zip (date_range t0 (length bs) step) bs))"
    using assms(1) by (simp add: fst_zip_date_range date_range_distinct)
  ultimately show ?thesis unfolding table_rows_def by (rule filter_flat[rotated])
qed


subsection \<open>Decimal numerals\<close>

text \<open>The decimal digits of a number, as \<open>str\<close> and the \<open>%d\<close> formats print it.\<close>

definition digit_char :: "nat \<Rightarrow> char" where
  "digit_char n = ''0123456789'' ! n"

function decimal :: "nat \<Rightarrow> string" where
  "decimal n = (if n < 10 then [digit_char n] else decimal (n div 10) @ [digit_char (n mod 10)])"
  by pat_completeness auto
termination
  by (relation "measure id") auto

declare decimal.simps [simp del]

subsection \<open>Sample run files\<close>

text \<open>
  Run files in the layout of the module's docstring, used to evaluate the model: a
  header that declares a number of trajectories, then for each trajectory a marker
  line, a blank line, the line of column labels, 89 records (steps 0 to 88) and a
  blank line. \<open>sample_run n\<close> declares \<open>n\<close> trajectories and holds three blocks,
  \<open>empty_run n\<close> ends after the first line of column labels, and \<open>short_run\<close>
  declares five trajectories and holds three records. A frequency of one minute is
  60000000000 nanoseconds.
\<close>

definition run_header :: "nat \<Rightarrow> string list" where
  "run_header ntraj = file_lines
     ['' TRAJECTORY BASE TIME IS 2019092200'',
      '' DATA BASE TIME IS 2021051700'',
      '' DATA INTERVAL IS    3 HOURS AND CONTAINS    6 TIMESTEPS'',
      '' TOTAL NUMBER OF TRAJECTORIES IS     '' @ decimal ntraj,
      '' NUMBER OF ATTRIBUTES IS    5'',
      '' ATTRIBUTE TYPES = '',
      ''   1   3   4  10 159'',
      '' NUMBER OF CLUSTERS IS    1'',
      '' CLUSTER POINTERS = '',
      ''      1'',
      '' 3D TRAJECTORY ? (T OR F): T'',
      '' FORECAST DATA ? (T OR F): F'',
      '' FORWARD TRAJECTORY ? (T OR F): F'',
      []]"

definition record_line :: "nat \<Rightarrow> string" where
  "record_line k = ''   '' @ decimal k @ '' 0.0 85 10 1000 250 1 0 500 300''"

definition marker_line :: "nat \<Rightarrow> string" where
  "marker_line k =
     '' TRAJECTORY NUMBER     '' @ decimal k @ '' COMPRISES    88 INTERVALS'' @ [CHR 0x0A]"

definition column_line :: string where
  "column_line =
     ''  STEP   HOURS     LAT     LON  P (MB)    TEMP      PV       Q  HEIGHT     BLH''"

definition block_lines :: "string list" where
  "block_lines = file_lines ([[], column_line] @ map record_line [0..<89] @ [[]])"

definition three_blocks :: "string list" where
  "three_blocks = block_lines @ marker_line 2 # block_lines @ marker_line 3 # block_lines"

definition sample_run :: "nat \<Rightarrow> string list" where
  "sample_run ntraj = run_header ntraj @ marker_line 1 # three_blocks"

definition empty_run :: "nat \<Rightarrow> string list" where
  "empty_run ntraj = run_header ntraj @ marker_line 1 # file_lines [[], column_line]"

definition sample_offset :: "string \<Rightarrow> error + int" where
  "sample_offset freq = (if freq = ''1min'' then Inr 60000000000 else Inl ValueError)"

definition sample_path :: string where
  "sample_path = ''data/rtraj_mosaic_1min_2019092200''"

definition sample_metadata :: "nat \<Rightarrow> metadata" where
  "sample_metadata ntraj =
     [(''trajectory base time'', PStr ''2019092200''),
      (''data base time'', PStr ''2021051700''),
      (''data interval hours'', PInt 3),
      (''data interval timesteps'', PInt 6),
      (''total number of trajectories'', PInt (int ntraj)),
      (''number of attributes'', PInt 5),
      (''attribute types'', PList [1, 3, 4, 10, 159]),
      (''number of clusters'', PInt 1),
      (''cluster pointers'', PInt 1),
      (''3d trajectory'', PBool True),
      (''forecast data'', PBool False),
      (''forward trajectory'', PBool False),
      (''attribute names'',
       PStrs [''temperature (K)'', ''potential vorticity (PVU)'',
              ''specific humidity (kg/kg)'', ''height (m)'', ''boundary layer height (m)''])]"

definition sample_base :: datetime where
  "sample_base = \<lparr>year = 2019, month = 9, day = 22, second_of_day = 0, utcoffset = None\<rparr>"

definition sample_names :: "string list" where
  "sample_names = [''temperature (K)'', ''potential vorticity (PVU)'',
              ''specific humidity (kg/kg)'', ''height (m)'', ''boundary layer height (m)'']"

definition short_run :: "string list" where
  "short_run = run_header 5 @ marker_line 1 #
     file_lines [[], column_line, record_line 0, record_line 1, record_line 2]"

definition single_attribute_run :: "string list" where
  "single_attribute_run = file_lines
     ['' TRAJECTORY BASE TIME IS 2019092200'',
      '' DATA BASE TIME IS 2021051700'',
      '' DATA INTERVAL IS    3 HOURS AND CONTAINS    6 TIMESTEPS'',
      '' TOTAL NUMBER OF TRAJECTORIES IS        1'',
      '' NUMBER OF ATTRIBUTES IS    1'',
      '' ATTRIBUTE TYPES = '',
      ''   1'',
      '' NUMBER OF CLUSTERS IS    1'',
      '' CLUSTER POINTERS = '',
      ''      1'',
      '' 3D TRAJECTORY ? (T OR F): T'',
      '' FORECAST DATA ? (T OR F): F'',
      '' FORWARD TRAJECTORY ? (T OR F): F'',
      [],
      '' TRAJECTORY NUMBER     1 COMPRISES    88 INTERVALS'',
      [],
      ''  STEP   HOURS     LAT     LON  P (MB)    TEMP'',
      ''     0    0.00   85.00   10.00  1000.0   250.0'']"

definition unknown_code_run :: "string list" where
  "unknown_code_run = file_lines
     ['' TRAJECTORY BASE TIME IS 2019092200'',
      '' TOTAL NUMBER OF TRAJECTORIES IS        1'',
      '' NUMBER OF ATTRIBUTES IS    2'',
      '' ATTRIBUTE TYPES = '',
      ''   1 999'',
      [],
      '' TRAJECTORY NUMBER     1 COMPRISES    88 INTERVALS'',
      [],
      ''  STEP   HOURS     LAT     LON  P (MB)    TEMP    WHAT'',
      ''     0    0.00   85.00   10.00  1000.0   250.0     0.0'']"


definition short_table :: run_table where
  "short_table =
     \<lparr>columns = [''HOURS'', ''LAT'', ''LON'', ''P (MB)''] @ sample_names,
      rows = map (\<lambda>k. (63704793600000000000, decimal k,
                        [''0.0'', ''85'', ''10'', ''1000'', ''250'', ''1'', ''0'', ''500'', ''300'']))
               [0..<3]\<rparr>"


subsection \<open>The header and the records of the sample runs\<close>

lemma run_header_length: "length (run_header n) = 14"
  by (simp add: run_header_def file_lines_def)

lemma marker_line_1: "is_marker (marker_line 1)"
  by code_simp

lemma run_header_3:
  "process_metadata (run_header 3) =
     Inr (AList.delete ''attribute names'' (sample_metadata 3), 2) \<and>
   (\<forall>l\<in>set (run_header 3). \<not> is_marker l)"
  by code_simp


lemma three_blocks_records:
  "length (drop 1 (filter (\<lambda>r. r \<noteq> []) (map split_fields three_blocks))) = 271"
  by code_simp

lemma sample_records: "length (records (read_csv (sample_run n) (14 + 1))) = 271"
proof -
  have "drop (14 + 1) (run_header n @ marker_line 1 # three_blocks) = three_blocks"
    by (simp add: run_header_length)
  then show ?thesis
    using three_blocks_records by (simp only: read_csv_def sample_run_def reader.simps)
qed

lemma empty_records: "records (read_csv (empty_run n) (14 + 1)) = []"
proof -
  have "drop (14 + 1) (run_header n @ marker_line 1 # file_lines [[], column_line]) =
        file_lines [[], column_line]"
    by (simp add: run_header_length)
  moreover have "drop 1 (filter (\<lambda>r. r \<noteq> []) (map split_fields (file_lines [[], column_line]))) = []"
    by code_simp
  ultimately show ?thesis by (simp only: read_csv_def empty_run_def reader.simps)
qed

lemma read_header_cong:
  "process_metadata f = process_metadata g \<Longrightarrow> read_header p f = read_header p g"
  by (simp add: read_header_def)

lemma process_metadata_marker:
  assumes "process_metadata hdr = Inr (md, c) \<and> (\<forall>l\<in>set hdr. \<not> is_marker l)"
    and "is_marker m"
  shows "process_metadata (hdr @ m # rest) = Inr (md, length hdr)"
  using scan_append_marker[of hdr 0 0 "[]" md c m rest] assms
  by (simp add: process_metadata_def)

lemma read_header_rest:
  assumes "process_metadata (run_header n) = Inr (md, c) \<and>
           (\<forall>l\<in>set (run_header n). \<not> is_marker l)"
  shows "read_header p (run_header n @ marker_line 1 # rest) =
         read_header p (run_header n @ [marker_line 1])"
  by (rule read_header_cong)
     (simp only: process_metadata_marker[OF assms marker_line_1])

lemma read_header_3:
  "read_header sample_path (run_header 3 @ [marker_line 1]) =
   Inr (sample_metadata 3, 14, ''1min'', sample_base, PInt (int 3), sample_names)"
  by code_simp


lemma read_header_sample_3:
  "read_header sample_path (sample_run 3) =
   Inr (sample_metadata 3, 14, ''1min'', sample_base, PInt (int 3), sample_names)"
  by (simp only: sample_run_def read_header_rest[OF run_header_3, of sample_path three_blocks]
      read_header_3)


lemma read_header_empty_3:
  "read_header sample_path (empty_run 3) =
   Inr (sample_metadata 3, 14, ''1min'', sample_base, PInt (int 3), sample_names)"
  by (simp only: empty_run_def
      read_header_rest[OF run_header_3, of sample_path "file_lines [[], column_line]"]
      read_header_3)


subsection \<open>The table of a run\<close>


lemma window_length:
  assumes "(nts + 3) * p \<le> length rs + 2" and "i < p"
  shows "length (take (nts + 1) (drop (i * (nts + 3)) rs)) = 89"
proof -
  from assms(2) have "i + 1 \<le> p" by simp
  then have "(nts + 3) * (i + 1) \<le> (nts + 3) * p" by (rule mult_le_mono2)
  with assms(1) have "i * (nts + 3) + (nts + 1) \<le> length rs" by (simp add: nts_def)
  then show ?thesis by (simp add: nts_def)
qed

lemma full_run_table:
  assumes "read_header filepath file = Inr (md, end, freq, dt, PInt (int p), names)"
    and "to_offset freq = Inr step"
    and "0 < p"
    and "(nts + 3) * p \<le> length (records (read_csv file (end + 1))) + 2"
  shows "\<exists>tbl. read_traj_lines to_offset filepath file = Inr (tbl, md) \<and>
           rows tbl = concat (map (\<lambda>i. keyed (midnight dt + int i * step)
                        (take (nts + 1) (drop (i * (nts + 3))
                           (records (read_csv file (end + 1)))))) [0..<p]) \<and>
           (step \<noteq> 0 \<longrightarrow> length (outer_index tbl) = p \<and> distinct (outer_index tbl) \<and>
              (\<forall>k\<in>set (outer_index tbl). length (rows_under k tbl) = 89))"
proof -
  let ?rs = "records (read_csv file (end + 1))"
  let ?f = "\<lambda>i. take (nts + 1) (drop (i * (nts + 3)) ?rs)"
  let ?t0 = "midnight dt"
  define tbl where "tbl = \<lparr>columns = [''HOURS'', ''LAT'', ''LON'', ''P (MB)''] @ names,
                           rows = table_rows ?t0 step (blocks_read p ?rs)\<rparr>"
  have res: "read_traj_lines to_offset filepath file = Inr (tbl, md)"
    using read_traj_lines_eq[where to_offset = to_offset, OF assms(1,2)] assms(3) by (simp add: tbl_def)
  have bs: "take p (blocks ?rs) = map ?f [0..<p]" by (rule take_blocks[OF assms(4)])
  have rows: "rows tbl = table_rows ?t0 step (map ?f [0..<p])"
    by (simp only: tbl_def run_table.simps table_rows_blocks_read bs)
  have len: "length (?f i) = 89" if "i < p" for i
    using window_length[OF assms(4) that] .
  have r1: "rows tbl = concat (map (\<lambda>i. keyed (?t0 + int i * step) (?f i)) [0..<p])"
    using rows by (simp only: table_rows_map)
  have r2: "length (outer_index tbl) = p \<and> distinct (outer_index tbl) \<and>
            (\<forall>k\<in>set (outer_index tbl). length (rows_under k tbl) = 89)" if nz: "step \<noteq> 0"
  proof -
    have ne: "\<forall>b\<in>set (map ?f [0..<p]). b \<noteq> []"
    proof
      fix b assume "b \<in> set (map ?f [0..<p])"
      then obtain i where "i < p" and "b = ?f i" by auto
      with len[of i] show "b \<noteq> []" by auto
    qed
    have oi: "outer_index tbl = date_range ?t0 p step"
      using outer_index_table_rows[OF nz ne, of ?t0] by (simp add: outer_index_def rows)
    have under: "length (rows_under k tbl) = 89" if "k \<in> set (outer_index tbl)" for k
    proof -
      from that oi obtain i where i: "i < p" and k: "k = ?t0 + int i * step"
        by (auto simp: date_range_def)
      have "rows_under k tbl = keyed k (map ?f [0..<p] ! i)"
        using rows_under_table_rows[OF nz, of i "map ?f [0..<p]" ?t0] i
        by (simp add: rows_under_def rows k)
      with i len[of i] show ?thesis by (simp add: keyed_def)
    qed
    from oi under nz show ?thesis by (simp add: date_range_distinct)
  qed
  from res r1 r2 show ?thesis by blast
qed

lemma truncated_run_table:
  assumes "read_header filepath file = Inr (md, end, freq, dt, PInt (int p), names)"
    and "to_offset freq = Inr step"
    and "0 < m" and "m < p"
    and "(nts + 3) * m \<le> length (records (read_csv file (end + 1))) + 2"
    and "length (records (read_csv file (end + 1))) \<le> (nts + 3) * m"
  shows "\<exists>tbl. read_traj_lines to_offset filepath file = Inr (tbl, md) \<and>
           rows tbl = concat (map (\<lambda>i. keyed (midnight dt + int i * step)
                        (take (nts + 1) (drop (i * (nts + 3))
                           (records (read_csv file (end + 1)))))) [0..<m]) \<and>
           (step \<noteq> 0 \<longrightarrow> outer_index tbl = date_range (midnight dt) m step \<and>
              length (outer_index tbl) = m)"
proof -
  let ?rs = "records (read_csv file (end + 1))"
  let ?f = "\<lambda>i. take (nts + 1) (drop (i * (nts + 3)) ?rs)"
  let ?t0 = "midnight dt"
  define tbl where "tbl = \<lparr>columns = [''HOURS'', ''LAT'', ''LON'', ''P (MB)''] @ names,
                           rows = table_rows ?t0 step (blocks_read p ?rs)\<rparr>"
  from assms(3,4) have p: "0 < p" and mp: "m \<le> p" by simp_all
  have res: "read_traj_lines to_offset filepath file = Inr (tbl, md)"
    using read_traj_lines_eq[where to_offset = to_offset, OF assms(1,2)] p by (simp add: tbl_def)
  have bs: "take p (blocks ?rs) = map ?f [0..<m]"
    by (rule blocks_exact[OF assms(5,6) mp])
  have rows: "rows tbl = table_rows ?t0 step (map ?f [0..<m])"
    by (simp only: tbl_def run_table.simps table_rows_blocks_read bs)
  have r1: "rows tbl = concat (map (\<lambda>i. keyed (?t0 + int i * step) (?f i)) [0..<m])"
    using rows by (simp only: table_rows_map)
  have r2: "outer_index tbl = date_range ?t0 m step \<and> length (outer_index tbl) = m"
    if nz: "step \<noteq> 0"
  proof -
    have ne: "\<forall>b\<in>set (map ?f [0..<m]). b \<noteq> []"
    proof
      fix b assume "b \<in> set (map ?f [0..<m])"
      then obtain i where "i < m" and "b = ?f i" by auto
      with window_length[OF assms(5), of i] show "b \<noteq> []" by auto
    qed
    have "outer_index tbl = date_range ?t0 m step"
      using outer_index_table_rows[OF nz ne, of ?t0] by (simp add: outer_index_def rows)
    then show ?thesis by simp
  qed
  from res r1 r2 show ?thesis by blast
qed


lemma empty_run_table:
  assumes "read_header filepath file = Inr (md, end, freq, dt, PInt (int p), names)"
    and "to_offset freq = Inr step"
    and "records (read_csv file (end + 1)) = []"
  shows "read_traj_lines to_offset filepath file =
         (if p = 0 then Inl ValueError
          else Inr (\<lparr>columns = [''HOURS'', ''LAT'', ''LON'', ''P (MB)''] @ names,
                     rows = []\<rparr>, md))"
proof -
  have "table_rows (midnight dt) step (blocks_read p []) =
        table_rows (midnight dt) step (take p (blocks []))"
    by (rule table_rows_blocks_read)
  also have "\<dots> = []" by (simp add: blocks.simps[of "[]"] table_rows_def)
  finally have "table_rows (midnight dt) step (blocks_read p []) = []" .
  with read_traj_lines_eq[where to_offset = to_offset, OF assms(1,2)] assms(3) show ?thesis by simp
qed


subsection \<open>The tables of the sample runs\<close>

lemma sample_offset_1min: "sample_offset ''1min'' = Inr 60000000000"
  by (simp add: sample_offset_def)


lemma read_traj_short:
  "read_traj_lines sample_offset sample_path short_run = Inr (short_table, sample_metadata 5)"
  by code_simp


text \<open>
  What \<open>read_traj\<close> returns for the sample run that declares \<open>n\<close> trajectories and
  holds three blocks, when \<open>n\<close> is 3 or 5.
\<close>

lemma sample_run_table:
  assumes "read_header sample_path (sample_run n) =
           Inr (sample_metadata n, 14, ''1min'', sample_base, PInt (int n), sample_names)"
    and "3 \<le> n"
  shows "\<exists>tbl. read_traj_lines sample_offset sample_path (sample_run n) =
                 Inr (tbl, sample_metadata n) \<and>
               length (outer_index tbl) = 3 \<and> distinct (outer_index tbl) \<and>
               (\<forall>k\<in>set (outer_index tbl). length (rows_under k tbl) = 89)"
proof (cases "n = 3")
  case True
  have "(nts + 3) * 3 \<le> length (records (read_csv (sample_run 3) (14 + 1))) + 2"
    using sample_records[of 3] by (simp add: nts_def)
  from full_run_table[where to_offset = sample_offset, OF assms(1)[unfolded True]
      sample_offset_1min _ this] True
  show ?thesis by auto
next
  case False
  with assms(2) have lt: "3 < n" by simp
  let ?rs = "records (read_csv (sample_run n) (14 + 1))"
  have a: "(nts + 3) * 3 \<le> length ?rs + 2" using sample_records[of n] by (simp add: nts_def)
  have b: "length ?rs \<le> (nts + 3) * 3" using sample_records[of n] by (simp add: nts_def)
  have full: "(nts + 3) * 3 \<le> length ?rs + 2" by (rule a)
  from truncated_run_table[where to_offset = sample_offset, OF assms(1)
      sample_offset_1min _ lt a b]
  obtain tbl where res: "read_traj_lines sample_offset sample_path (sample_run n) =
        Inr (tbl, sample_metadata n)"
    and rows: "rows tbl = concat (map (\<lambda>i. keyed (midnight sample_base + int i * 60000000000)
                        (take (nts + 1) (drop (i * (nts + 3)) ?rs))) [0..<3])"
    and oi: "outer_index tbl = date_range (midnight sample_base) 3 60000000000"
    by auto
  have "length (rows_under k tbl) = 89" if "k \<in> set (outer_index tbl)" for k
  proof -
    from that oi obtain i where i: "i < 3" and k: "k = midnight sample_base + int i * 60000000000"
      by (auto simp: date_range_def)
    have tr: "rows tbl = table_rows (midnight sample_base) 60000000000
                (map (\<lambda>i. take (nts + 1) (drop (i * (nts + 3)) ?rs)) [0..<3])"
      using rows by (simp only: table_rows_map)
    have "rows_under k tbl =
          keyed k (map (\<lambda>i. take (nts + 1) (drop (i * (nts + 3)) ?rs)) [0..<3] ! i)"
      unfolding rows_under_def tr k
      by (rule rows_under_table_rows) (use i in simp_all)
    with i window_length[OF full, of i] show ?thesis by (simp add: keyed_def)
  qed
  with res oi show ?thesis by (auto simp: date_range_distinct)
qed

text \<open>
  C2. For a run file whose header declares \<open>p\<close> trajectories, \<open>p\<close> at least 1, and
  whose records hold \<open>p\<close> blocks, \<open>read_traj\<close> returns a table in which block \<open>i\<close>
  is the window of \<open>nts + 1\<close> records that starts at record \<open>i * (nts + 3)\<close>: the
  source fixes \<open>nts = 88\<close>, so a window is 89 records, and the 2 records after it are
  read and dropped. For a frequency of non-zero length the outer index has \<open>p\<close>
  distinct time stamps with 89 rows under each; for \<open>p = 3\<close>, 3 time stamps with
  89 rows each.
\<close>

theorem read_traj_windows:
  assumes "read_header filepath file = Inr (md, end, freq, dt, PInt (int p), names)"
    and "to_offset freq = Inr step"
    and "0 < p"
    and "(nts + 3) * p \<le> length (records (read_csv file (end + 1))) + 2"
  shows "\<exists>tbl. read_traj_lines to_offset filepath file = Inr (tbl, md) \<and>
           rows tbl = concat (map (\<lambda>i. keyed (midnight dt + int i * step)
                        (take (nts + 1) (drop (i * (nts + 3))
                           (records (read_csv file (end + 1)))))) [0..<p]) \<and>
           (step \<noteq> 0 \<longrightarrow> length (outer_index tbl) = p \<and> distinct (outer_index tbl) \<and>
              (\<forall>k\<in>set (outer_index tbl). length (rows_under k tbl) = 89))"
  using assms by (rule full_run_table)

theorem read_traj_windows_witness:
  "read_header sample_path (sample_run 3) =
     Inr (sample_metadata 3, 14, ''1min'', sample_base, PInt (int 3), sample_names) \<and>
   sample_offset ''1min'' = Inr 60000000000 \<and>
   (nts + 3) * 3 \<le> length (records (read_csv (sample_run 3) (14 + 1))) + 2 \<and>
   (\<exists>tbl. read_traj_lines sample_offset sample_path (sample_run 3) =
            Inr (tbl, sample_metadata 3) \<and>
          length (outer_index tbl) = 3 \<and> distinct (outer_index tbl) \<and>
          (\<forall>k\<in>set (outer_index tbl). length (rows_under k tbl) = 89))"
proof -
  have h4: "(nts + 3) * 3 \<le> length (records (read_csv (sample_run 3) (14 + 1))) + 2"
    using sample_records[of 3] by (simp add: nts_def)
  from read_traj_windows[where to_offset = sample_offset, OF read_header_sample_3
      sample_offset_1min _ h4]
  have "\<exists>tbl. read_traj_lines sample_offset sample_path (sample_run 3) =
            Inr (tbl, sample_metadata 3) \<and>
          length (outer_index tbl) = 3 \<and> distinct (outer_index tbl) \<and>
          (\<forall>k\<in>set (outer_index tbl). length (rows_under k tbl) = 89)"
    by auto
  with read_header_sample_3 sample_offset_1min h4 show ?thesis by blast
qed

text \<open>
  As stated, with a window of \<open>steps_per_trajectory + 1\<close> record lines for a
  \<open>steps_per_trajectory\<close> of 89, C2 fails: the window is 89 records, not 90. In the
  sample run of three blocks every time stamp has 89 rows.
\<close>

theorem read_traj_windows_counterexample:
  "(case read_traj_lines sample_offset sample_path (sample_run 3) of
      Inl e \<Rightarrow> False
    | Inr (tbl, md) \<Rightarrow>
        map (\<lambda>k. length (rows_under k tbl)) (outer_index tbl) = [89, 89, 89] \<and>
        length (rows_under (hd (outer_index tbl)) tbl) \<noteq> 89 + 1)"
proof -
  from sample_run_table[OF read_header_sample_3] obtain tbl where
    res: "read_traj_lines sample_offset sample_path (sample_run 3) = Inr (tbl, sample_metadata 3)"
    and len: "length (outer_index tbl) = 3"
    and under: "\<forall>k\<in>set (outer_index tbl). length (rows_under k tbl) = 89"
    by auto
  from len obtain a b c where abc: "outer_index tbl = [a, b, c]"
    by (auto simp: length_Suc_conv numeral_3_eq_3)
  with under res show ?thesis by simp
qed








text \<open>
  C10. When the header is valid and no record follows the skipped lines, the first
  read of the reader returns an empty frame, which fills the first slot, and the
  second read ends the loop. \<open>pd.concat\<close> is then given one frame: \<open>read_traj\<close>
  returns a table without rows whenever the header declares at least one trajectory.
  It raises (\<open>ValueError\<close>, from \<open>pd.concat\<close> on an empty list) only when the header
  declares none.
\<close>

theorem read_traj_no_records:
  assumes "read_header filepath file = Inr (md, end, freq, dt, PInt (int p), names)"
    and "to_offset freq = Inr step"
    and "records (read_csv file (end + 1)) = []"
  shows "read_traj_lines to_offset filepath file =
         (if p = 0 then Inl ValueError
          else Inr (\<lparr>columns = [''HOURS'', ''LAT'', ''LON'', ''P (MB)''] @ names,
                     rows = []\<rparr>, md))"
  using assms by (rule empty_run_table)

theorem read_traj_no_records_witness:
  "read_header sample_path (empty_run 3) =
     Inr (sample_metadata 3, 14, ''1min'', sample_base, PInt (int 3), sample_names) \<and>
   sample_offset ''1min'' = Inr 60000000000 \<and>
   records (read_csv (empty_run 3) (14 + 1)) = [] \<and>
   read_traj_lines sample_offset sample_path (empty_run 3) =
     Inr (\<lparr>columns = [''HOURS'', ''LAT'', ''LON'', ''P (MB)''] @ sample_names, rows = []\<rparr>,
          sample_metadata 3)"
proof -
  from read_traj_no_records[where to_offset = sample_offset, OF read_header_empty_3
      sample_offset_1min empty_records]
  have "read_traj_lines sample_offset sample_path (empty_run 3) =
     Inr (\<lparr>columns = [''HOURS'', ''LAT'', ''LON'', ''P (MB)''] @ sample_names, rows = []\<rparr>,
          sample_metadata 3)"
    by simp
  with read_header_empty_3 sample_offset_1min empty_records[of 3] show ?thesis by simp
qed

text \<open>
  As stated, C10 fails: for the sample run that ends after the column labels
  \<open>read_traj\<close> raises nothing and returns a table with no rows and an empty outer
  index.
\<close>

theorem read_traj_no_records_counterexample:
  "(case read_traj_lines sample_offset sample_path (empty_run 3) of
      Inl e \<Rightarrow> False
    | Inr (tbl, md) \<Rightarrow> rows tbl = [] \<and> outer_index tbl = [])"
proof -
  from empty_run_table[where to_offset = sample_offset, OF read_header_empty_3
      sample_offset_1min empty_records]
  show ?thesis by (simp add: outer_index_def)
qed

subsection \<open>Attribute names\<close>

lemma attribute_names_known:
  "\<forall>x\<in>set codes. map_of ATTR x \<noteq> None \<Longrightarrow>
   attribute_names codes = Inr (map (\<lambda>x. the (map_of ATTR x)) codes)"
  by (induction codes) (auto simp: lookup_def)

lemma attribute_names_unknown:
  "x \<in> set codes \<Longrightarrow> map_of ATTR x = None \<Longrightarrow> attribute_names codes = Inl KeyError"
  by (induction codes) (auto simp: lookup_def split: option.splits sum.splits)

lemma attribute_names_table:
  "attribute_names [1, 3, 4, 10, 159] =
   Inr [''temperature (K)'', ''potential vorticity (PVU)'', ''specific humidity (kg/kg)'',
        ''height (m)'', ''boundary layer height (m)'']"
  by code_simp

lemma attribute_names_999: "attribute_names [1, 999] = Inl KeyError"
  by code_simp

lemma unknown_code_aborts:
  "read_traj_lines sample_offset sample_path unknown_code_run = Inl KeyError"
  by code_simp

text \<open>
  C5. The comprehension maps the codes 1, 3, 4, 10, 159 to their five names in order,
  and raises \<open>KeyError\<close> on a list with a code that the table lacks, which aborts
  \<open>read_traj\<close> (the lemmas above). The codes reach it as the value of \<open>get_numeric\<close>,
  though, which for a line with a single number is that number and not a list: for a
  header with one attribute code the comprehension iterates over an integer and
  \<open>read_traj\<close> raises \<open>TypeError\<close>. Here the single code is 1, which the table
  knows, and it is not mapped to its name.
\<close>

theorem single_attribute_code_raises:
  "map_of (fst (projr (process_metadata single_attribute_run))) ''attribute types'' =
     Some (PInt 1) \<and>
   read_traj_lines sample_offset sample_path single_attribute_run = Inl TypeError"
  by code_simp

subsection \<open>Dates of the command line\<close>

text \<open>
  \<open>datetime.fromisoformat\<close>, for the three spellings that every version of Python
  with this function reads in the same way: a date \<open>YYYY-MM-DD\<close>; a date, one
  separator character and a time \<open>HH:MM:SS\<close>; and the same followed by an offset
  from UTC, \<open>+HH:MM\<close> or \<open>-HH:MM\<close>, which makes the value aware. Other strings
  raise \<open>ValueError\<close> here; the further spellings that later versions accept are
  outside the model.
\<close>

definition two_digits :: "string \<Rightarrow> nat option" where
  "two_digits s = (if length s = 2 \<and> list_all is_digit s then Some (nat_of_digits s) else None)"

definition parse_date :: "string \<Rightarrow> (nat \<times> nat \<times> nat) option" where
  "parse_date s =
     (if length s = 10 \<and> list_all is_digit (take 4 s) \<and> s ! 4 = CHR ''-'' \<and> s ! 7 = CHR ''-''
      then (case (two_digits (take 2 (drop 5 s)), two_digits (drop 8 s)) of
              (Some m, Some d) \<Rightarrow>
                (if valid_date (nat_of_digits (take 4 s)) m d
                 then Some (nat_of_digits (take 4 s), m, d) else None)
            | _ \<Rightarrow> None)
      else None)"

definition parse_time :: "string \<Rightarrow> nat option" where
  "parse_time s =
     (if length s = 8 \<and> s ! 2 = CHR '':'' \<and> s ! 5 = CHR '':''
      then (case (two_digits (take 2 s), two_digits (take 2 (drop 3 s)), two_digits (drop 6 s)) of
              (Some h, Some m, Some sec) \<Rightarrow>
                (if h < 24 \<and> m < 60 \<and> sec < 60 then Some (h * 3600 + m * 60 + sec) else None)
            | _ \<Rightarrow> None)
      else None)"

definition parse_offset :: "string \<Rightarrow> int option" where
  "parse_offset s =
     (if length s = 6 \<and> (s ! 0 = CHR ''+'' \<or> s ! 0 = CHR ''-'') \<and> s ! 3 = CHR '':''
      then (case (two_digits (take 2 (drop 1 s)), two_digits (drop 4 s)) of
              (Some h, Some m) \<Rightarrow>
                (if h < 24 \<and> m < 60
                 then Some ((if s ! 0 = CHR ''-'' then - 1 else 1) * int (h * 3600 + m * 60))
                 else None)
            | _ \<Rightarrow> None)
      else None)"

definition fromisoformat :: "string \<Rightarrow> error + datetime" where
  "fromisoformat s =
     (case parse_date (take 10 s) of
        None \<Rightarrow> Inl ValueError
      | Some (y, m, d) \<Rightarrow>
          (if length s = 10
           then Inr \<lparr>year = y, month = m, day = d, second_of_day = 0, utcoffset = None\<rparr>
           else if length s = 19
           then (case parse_time (drop 11 s) of
                   None \<Rightarrow> Inl ValueError
                 | Some t \<Rightarrow>
                     Inr \<lparr>year = y, month = m, day = d, second_of_day = t, utcoffset = None\<rparr>)
           else if length s = 25
           then (case (parse_time (take 8 (drop 11 s)), parse_offset (drop 19 s)) of
                   (Some t, Some off) \<Rightarrow>
                     Inr \<lparr>year = y, month = m, day = d, second_of_day = t,
                          utcoffset = Some off\<rparr>
                 | _ \<Rightarrow> Inl ValueError)
           else Inl ValueError))"

text \<open>
  The difference of two values in whole days, \<open>(a - b).days\<close>: the floor of the
  difference in days. Subtracting a naive value from an aware one, or the reverse,
  raises \<open>TypeError\<close>.
\<close>

definition seconds_utc :: "datetime \<Rightarrow> int" where
  "seconds_utc t =
     ymd2ord (year t) (month t) (day t) * 86400 + int (second_of_day t) -
     (case utcoffset t of None \<Rightarrow> 0 | Some off \<Rightarrow> off)"

definition sub_days :: "datetime \<Rightarrow> datetime \<Rightarrow> error + int" where
  "sub_days a b =
     (if (utcoffset a = None) \<noteq> (utcoffset b = None) then Inl TypeError
      else Inr ((seconds_utc a - seconds_utc b) div 86400))"

text \<open>\<open>t + timedelta(n)\<close> for \<open>n\<close> whole days: the date moves on, the time stays.\<close>

definition next_day :: "datetime \<Rightarrow> datetime" where
  "next_day t =
     (if day t < days_in_month (year t) (month t) then t\<lparr>day := day t + 1\<rparr>
      else if month t < 12 then t\<lparr>month := month t + 1, day := 1\<rparr>
      else t\<lparr>year := year t + 1, month := 1, day := 1\<rparr>)"

primrec plus_days :: "datetime \<Rightarrow> nat \<Rightarrow> datetime" where
  "plus_days t 0 = t"
| "plus_days t (Suc n) = next_day (plus_days t n)"

text \<open>
  \<open>daterange\<close> is a generator; the list of the values it yields, or the exception
  that its first step raises. \<open>range(k)\<close> is empty for \<open>k\<close> below 1.
\<close>

definition daterange :: "datetime \<Rightarrow> datetime option \<Rightarrow> error + datetime list" where
  "daterange start_date end_date =
     (let end_date = (case end_date of None \<Rightarrow> start_date | Some e \<Rightarrow> e)
      in case sub_days end_date start_date of
           Inl e \<Rightarrow> Inl e
         | Inr days \<Rightarrow> Inr (map (plus_days start_date) [0..<nat (days + 1)]))"

text \<open>
  \<open>date.strftime("rtraj*%Y%m%d00")\<close>: the pattern is \<open>rtraj*\<close> followed by the
  stamp of the day. The C library prints a year below 1000 without leading zeros.
\<close>

definition pad2 :: "nat \<Rightarrow> string" where
  "pad2 n = (if n < 10 then CHR ''0'' # decimal n else decimal n)"

definition stamp :: "datetime \<Rightarrow> string" where
  "stamp t = decimal (year t) @ pad2 (month t) @ pad2 (day t) @ ''00''"

subsection \<open>The file system and the working directory\<close>

text \<open>
  The part of the process state that \<open>read_data\<close> touches: the current working
  directory, the directories with the names of their entries in the order in which
  the system lists them, and the text files with their lines. Paths are absolute
  once joined to the working directory and are compared as text.
\<close>

record world =
  cwd :: string
  dirs :: "(string \<times> string list) list"
  files :: "(string \<times> string list) list"

text \<open>\<open>os.path.join(a, b)\<close> for a relative \<open>b\<close>.\<close>

definition path_join :: "string \<Rightarrow> string \<Rightarrow> string" where
  "path_join a b =
     (if a = [] then b else if last a = CHR ''/'' then a @ b else a @ ''/'' @ b)"

definition abspath :: "world \<Rightarrow> string \<Rightarrow> string" where
  "abspath w p = (if startswith p ''/'' then p else path_join (cwd w) p)"

definition isdir :: "world \<Rightarrow> string \<Rightarrow> bool" where
  "isdir w p \<longleftrightarrow> map_of (dirs w) (abspath w p) \<noteq> None"

definition chdir :: "world \<Rightarrow> string \<Rightarrow> world" where
  "chdir w p = w\<lparr>cwd := abspath w p\<rparr>"

definition open_file :: "world \<Rightarrow> string \<Rightarrow> error + string list" where
  "open_file w p =
     (case map_of (files w) (abspath w p) of
        None \<Rightarrow> Inl FileNotFoundError
      | Some ls \<Rightarrow> Inr ls)"

text \<open>
  \<open>glob.glob\<close> of a pattern \<open>rtraj*stamp\<close>, in the working directory: the names that
  start with \<open>rtraj\<close> and, after these five characters, end with the stamp, in the
  order of the listing.
\<close>

definition endswith :: "string \<Rightarrow> string \<Rightarrow> bool" where
  "endswith s suffix = startswith (rev s) (rev suffix)"

definition fnmatch_rtraj :: "string \<Rightarrow> string \<Rightarrow> bool" where
  "fnmatch_rtraj stmp name \<longleftrightarrow> startswith name ''rtraj'' \<and> endswith (drop 5 name) stmp"

definition listdir :: "world \<Rightarrow> string list" where
  "listdir w = (case map_of (dirs w) (cwd w) of None \<Rightarrow> [] | Some names \<Rightarrow> names)"

definition glob_rtraj :: "world \<Rightarrow> string \<Rightarrow> string list" where
  "glob_rtraj w stmp = filter (fnmatch_rtraj stmp) (listdir w)"

subsection \<open>\<open>read_traj\<close> and \<open>read_data\<close> on the file system\<close>

text \<open>
  \<open>read_traj\<close> opens the file of the path (twice, in \<open>process_metadata\<close> and in
  \<open>pd.read_csv\<close>) and reads it; it writes nothing. The functions return the state
  they leave.
\<close>

definition read_traj ::
  "(string \<Rightarrow> error + int) \<Rightarrow> world \<Rightarrow> string \<Rightarrow> (error + (run_table \<times> metadata)) \<times> world" where
  "read_traj to_offset w filepath =
     (case open_file w filepath of
        Inl e \<Rightarrow> (Inl e, w)
      | Inr file \<Rightarrow> (read_traj_lines to_offset filepath file, w))"

text \<open>The comprehension \<open>[read_traj(p) for p in paths]\<close>: it ends at the first exception.\<close>

fun read_all ::
  "(string \<Rightarrow> error + int) \<Rightarrow> world \<Rightarrow> string list \<Rightarrow>
   (error + (run_table \<times> metadata) list) \<times> world" where
  "read_all to_offset w [] = (Inr [], w)"
| "read_all to_offset w (p # ps) =
     (case read_traj to_offset w p of
        (Inl e, w1) \<Rightarrow> (Inl e, w1)
      | (Inr x, w1) \<Rightarrow>
          (case read_all to_offset w1 ps of
             (Inl e, w2) \<Rightarrow> (Inl e, w2)
           | (Inr xs, w2) \<Rightarrow> (Inr (x # xs), w2)))"

definition read_data ::
  "(string \<Rightarrow> error + int) \<Rightarrow> world \<Rightarrow> string \<Rightarrow> string \<Rightarrow> string option \<Rightarrow>
   (error + (run_table \<times> metadata) list) \<times> world" where
  "read_data to_offset w input_dir start_date end_date =
     (if \<not> isdir w input_dir then (Inl ValueError, w)
      else
        (case fromisoformat start_date of
           Inl e \<Rightarrow> (Inl e, w)
         | Inr sd \<Rightarrow>
             (case (case end_date of None \<Rightarrow> Inr None | Some s \<Rightarrow> map_sum id Some (fromisoformat s)) of
                Inl e \<Rightarrow> (Inl e, w)
              | Inr ed \<Rightarrow>
                  (let start_dir = cwd w;
                       w1 = chdir w input_dir
                   in (case daterange sd ed of
                         Inl e \<Rightarrow> (Inl e, w1)
                       | Inr dates \<Rightarrow>
                           (let names = concat (map (\<lambda>date. glob_rtraj w1 (stamp date)) dates);
                                w2 = chdir w1 start_dir
                            in read_all to_offset w2 (map (path_join input_dir) names)))))))"

text \<open>
  A state for evaluation: the process is in \<open>/home/user\<close>, and the directory
  \<open>data\<close> holds a note and the run files of 22 and 24 September 2019, listed with
  the later file first.
\<close>

definition test_world :: world where
  "test_world =
     \<lparr>cwd = ''/home/user'',
      dirs = [(''/home/user'', [''data'']),
              (''/home/user/data'',
               [''rtraj_mosaic_1min_2019092400'', ''notes.txt'',
                ''rtraj_mosaic_1min_2019092200''])],
      files = [(''/home/user/data/rtraj_mosaic_1min_2019092200'', short_run),
               (''/home/user/data/rtraj_mosaic_1min_2019092400'', empty_run 3),
               (''/home/user/data/notes.txt'', [])]\<rparr>"


definition empty_table :: run_table where
  "empty_table = \<lparr>columns = [''HOURS'', ''LAT'', ''LON'', ''P (MB)''] @ sample_names, rows = []\<rparr>"

subsection \<open>The days of a range\<close>

text \<open>
  A date is well formed when its month and day exist. The next day of a well-formed
  date has the next ordinal, so \<open>t + timedelta(n)\<close> is the date \<open>n\<close> days later.
\<close>

definition wf_date :: "datetime \<Rightarrow> bool" where
  "wf_date t \<longleftrightarrow>
     1 \<le> year t \<and> 1 \<le> month t \<and> month t \<le> 12 \<and> 1 \<le> day t \<and>
     day t \<le> days_in_month (year t) (month t)"

definition ordinal :: "datetime \<Rightarrow> int" where
  "ordinal t = ymd2ord (year t) (month t) (day t)"

lemma days_before_month_Suc:
  "1 \<le> m \<Longrightarrow> days_before_month y (Suc m) = days_before_month y m + int (days_in_month y m)"
  by (simp add: days_before_month_def)

lemma days_before_month_12: "days_before_month y 12 + 31 = (if is_leap y then 366 else 365)"
  by (simp add: days_before_month_def days_in_month_def upt_rec)

lemma div_step:
  fixes y k :: int
  assumes "0 < k"
  shows "y div k - (y - 1) div k = (if y mod k = 0 then 1 else 0)"
proof (cases "y mod k = 0")
  case True
  have "y = k * (y div k) + y mod k" by simp
  with True have "y - 1 = k * (y div k - 1) + (k - 1)" by (simp add: algebra_simps)
  from int_div_pos_eq[OF this] assms have "(y - 1) div k = y div k - 1" by simp
  with True show ?thesis by simp
next
  case False
  from assms have "0 \<le> y mod k" by (rule pos_mod_sign)
  with False have pos: "0 < y mod k" by simp
  from assms have lt: "y mod k < k" by (rule pos_mod_bound)
  have "y = k * (y div k) + y mod k" by simp
  then have "y - 1 = k * (y div k) + (y mod k - 1)" by simp
  from int_div_pos_eq[OF this] pos lt have "(y - 1) div k = y div k" by simp
  with False show ?thesis by simp
qed

lemma mod_int_iff: "((y::nat) mod k = 0) = (int y mod int k = 0)"
proof -
  have "int (y mod k) = int y mod int k" by (rule zmod_int)
  then show ?thesis by (metis of_nat_eq_0_iff)
qed

lemma mod_400_100: "(y::nat) mod 400 = 0 \<Longrightarrow> y mod 100 = 0"
proof -
  assume "y mod 400 = 0"
  then have "400 dvd y" by (simp add: mod_eq_0_iff_dvd)
  moreover have "(100::nat) dvd 400" by simp
  ultimately have "100 dvd y" using dvd_trans by blast
  then show ?thesis by (simp add: mod_eq_0_iff_dvd)
qed

lemma mod_100_4: "(y::nat) mod 100 = 0 \<Longrightarrow> y mod 4 = 0"
proof -
  assume "y mod 100 = 0"
  then have "100 dvd y" by (simp add: mod_eq_0_iff_dvd)
  moreover have "(4::nat) dvd 100" by simp
  ultimately have "4 dvd y" using dvd_trans by blast
  then show ?thesis by (simp add: mod_eq_0_iff_dvd)
qed

lemma days_before_year_Suc:
  "days_before_year (Suc y) = days_before_year y + (if is_leap y then 366 else 365)"
proof -
  let ?y = "int y"
  define a where "a = (?y - 1) div 4"
  define b where "b = (?y - 1) div 100"
  define c where "c = (?y - 1) div 400"
  have d4: "?y div 4 = a + (if y mod 4 = 0 then 1 else 0)"
    using div_step[of 4 ?y] mod_int_iff[of y 4] by (simp add: a_def)
  have d100: "?y div 100 = b + (if y mod 100 = 0 then 1 else 0)"
    using div_step[of 100 ?y] mod_int_iff[of y 100] by (simp add: b_def)
  have d400: "?y div 400 = c + (if y mod 400 = 0 then 1 else 0)"
    using div_step[of 400 ?y] mod_int_iff[of y 400] by (simp add: c_def)
  have l: "days_before_year (Suc y) = ?y * 365 + ?y div 4 - ?y div 100 + ?y div 400"
    by (simp add: days_before_year_def Let_def)
  have r: "days_before_year y = (?y - 1) * 365 + a - b + c"
    by (simp add: days_before_year_def Let_def a_def b_def c_def)
  show ?thesis
  proof (cases "y mod 4 = 0")
    case False
    with mod_100_4[of y] have n100: "y mod 100 \<noteq> 0" by blast
    with mod_400_100[of y] have "y mod 400 \<noteq> 0" by blast
    note n100 this
    with False show ?thesis
      unfolding l r d4 d100 d400 is_leap_def by (simp add: algebra_simps)
  next
    case m4: True
    show ?thesis
    proof (cases "y mod 100 = 0")
      case False
      with mod_400_100[of y] have "y mod 400 \<noteq> 0" by blast
      with m4 False show ?thesis
        unfolding l r d4 d100 d400 is_leap_def by (simp add: algebra_simps)
    next
      case m100: True
      show ?thesis
      proof (cases "y mod 400 = 0")
        case False
        with m4 m100 show ?thesis
          unfolding l r d4 d100 d400 is_leap_def by (simp add: algebra_simps)
      next
        case True
        with m4 m100 show ?thesis
          unfolding l r d4 d100 d400 is_leap_def by (simp add: algebra_simps)
      qed
    qed
  qed
qed

lemma ordinal_next_day: "wf_date t \<Longrightarrow> ordinal (next_day t) = ordinal t + 1"
proof -
  assume wf: "wf_date t"
  show ?thesis
  proof (cases "day t < days_in_month (year t) (month t)")
    case True
    then show ?thesis by (simp add: next_day_def ordinal_def ymd2ord_def)
  next
    case False
    with wf have d: "day t = days_in_month (year t) (month t)" by (simp add: wf_date_def)
    show ?thesis
    proof (cases "month t < 12")
      case True
      from wf have "1 \<le> month t" by (simp add: wf_date_def)
      from days_before_month_Suc[OF this, of "year t"] True False d
      show ?thesis by (simp add: next_day_def ordinal_def ymd2ord_def)
    next
      case m: False
      with wf have m12: "month t = 12" by (simp add: wf_date_def)
      with d have d31: "day t = 31" by (simp add: days_in_month_def)
      have "days_before_month (Suc (year t)) 1 = 0" by (simp add: days_before_month_def)
      with m12 d31 False m days_before_month_12[of "year t"] days_before_year_Suc[of "year t"]
      show ?thesis by (simp add: next_day_def ordinal_def ymd2ord_def days_in_month_def)
    qed
  qed
qed

lemma wf_next_day: "wf_date t \<Longrightarrow> wf_date (next_day t)"
  by (auto simp: wf_date_def next_day_def days_in_month_def)

lemma wf_plus_days: "wf_date t \<Longrightarrow> wf_date (plus_days t n)"
  by (induction n) (simp_all add: wf_next_day)

lemma ordinal_plus_days: "wf_date t \<Longrightarrow> ordinal (plus_days t n) = ordinal t + int n"
  by (induction n) (simp_all add: ordinal_next_day wf_plus_days)

subsection \<open>Properties of \<open>read_traj\<close> and \<open>read_data\<close>\<close>

text \<open>
  The entries of a directory, the days from one date to another, and the names in a
  directory that match the pattern of one of the days, day by day.
\<close>

definition entries :: "world \<Rightarrow> string \<Rightarrow> string list" where
  "entries w d = (case map_of (dirs w) (abspath w d) of None \<Rightarrow> [] | Some names \<Rightarrow> names)"

definition days :: "datetime \<Rightarrow> datetime \<Rightarrow> datetime list" where
  "days sd ed = map (plus_days sd) [0..<nat (ordinal ed - ordinal sd + 1)]"

definition run_files :: "world \<Rightarrow> string \<Rightarrow> datetime list \<Rightarrow> string list" where
  "run_files w d ds = concat (map (\<lambda>t. filter (fnmatch_rtraj (stamp t)) (entries w d)) ds)"

lemma read_traj_world: "snd (read_traj to_offset w p) = w"
  by (simp add: read_traj_def split: sum.splits)

lemma read_all_world: "snd (read_all to_offset w ps) = w"
proof (induction ps)
  case Nil
  show ?case by simp
next
  case (Cons p ps)
  obtain r w1 where r: "read_traj to_offset w p = (r, w1)" by (cases "read_traj to_offset w p")
  with read_traj_world[of to_offset w p] have w1: "w1 = w" by simp
  obtain rs w2 where rs: "read_all to_offset w ps = (rs, w2)" by (cases "read_all to_offset w ps")
  with Cons have w2: "w2 = w" by simp
  show ?case using r rs w1 w2 by (simp split: sum.splits)
qed

lemma read_all_map:
  "\<forall>n\<in>set ns. fst (read_traj to_offset w (h n)) = Inr (f n) \<Longrightarrow>
   read_all to_offset w (map h ns) = (Inr (map f ns), w)"
proof (induction ns)
  case Nil
  show ?case by simp
next
  case (Cons n ns)
  from Cons.prems read_traj_world[of to_offset w "h n"]
  have "read_traj to_offset w (h n) = (Inr (f n), w)"
    by (cases "read_traj to_offset w (h n)") simp
  moreover from Cons have "read_all to_offset w (map h ns) = (Inr (map f ns), w)" by simp
  ultimately show ?case by simp
qed

lemma abspath_absolute: "startswith p ''/'' \<Longrightarrow> abspath w p = p"
  by (simp add: abspath_def)

lemma chdir_back: "startswith (cwd w) ''/'' \<Longrightarrow> chdir (chdir w d) (cwd w) = w"
  by (simp add: chdir_def abspath_def)

lemma listdir_chdir: "listdir (chdir w d) = entries w d"
  by (simp add: listdir_def chdir_def entries_def)

lemma glob_chdir:
  "concat (map (\<lambda>date. glob_rtraj (chdir w d) (stamp date)) ds) = run_files w d ds"
  by (simp add: glob_rtraj_def listdir_chdir run_files_def)

lemma fromisoformat_date:
  assumes "length s = 10" and "fromisoformat s = Inr t"
  shows "second_of_day t = 0 \<and> utcoffset t = None \<and> wf_date t"
  using assms
  by (auto simp: fromisoformat_def parse_date_def valid_date_def wf_date_def
      split: option.splits if_splits prod.splits)

lemma sub_days_dates:
  assumes "second_of_day a = 0" "utcoffset a = None" "second_of_day b = 0" "utcoffset b = None"
  shows "sub_days a b = Inr (ordinal a - ordinal b)"
proof -
  have "ordinal a * 86400 - ordinal b * 86400 = (ordinal a - ordinal b) * 86400"
    by (rule left_diff_distrib[symmetric])
  then have "(ordinal a * 86400 - ordinal b * 86400) div 86400 = ordinal a - ordinal b"
    by (simp only: nonzero_mult_div_cancel_right[of 86400] num.simps numeral_eq_iff
        zero_neq_numeral[symmetric] not_False_eq_True)
  with assms show ?thesis by (simp add: sub_days_def seconds_utc_def ordinal_def)
qed

lemma daterange_dates:
  assumes "length s = 10" "fromisoformat s = Inr sd" "length e = 10" "fromisoformat e = Inr ed"
  shows "daterange sd (Some ed) = Inr (days sd ed)"
  using fromisoformat_date[OF assms(1,2)] fromisoformat_date[OF assms(3,4)]
  by (simp add: daterange_def sub_days_dates days_def)

lemma upto_map: "map (\<lambda>n. a + int n) [0..<nat (b - a + 1)] = [a..b]"
proof (induction "nat (b - a + 1)" arbitrary: b)
  case 0
  then show ?case by simp
next
  case (Suc k)
  then have ab: "a \<le> b" and k: "k = nat ((b - 1) - a + 1)" by simp_all
  from Suc(1)[OF k] have IH: "map (\<lambda>n. a + int n) [0..<k] = [a..b - 1]" using k by simp
  have "[a..b] = [a..b - 1] @ [b]" using ab by (simp add: upto_rec2)
  moreover have "a + int k = b" using Suc(2) by simp
  ultimately show ?case using Suc(2)[symmetric] IH by simp
qed

lemma days_ordinals: "wf_date sd \<Longrightarrow> map ordinal (days sd ed) = [ordinal sd..ordinal ed]"
  by (simp add: days_def comp_def ordinal_plus_days upto_map)

lemma read_data_default:
  "read_data to_offset w d s None = read_data to_offset w d s (Some s)"
  by (cases "fromisoformat s") (simp_all add: read_data_def daterange_def)

text \<open>
  Either \<open>read_data\<close> leaves the state as it found it, or \<open>daterange\<close> raised
  \<open>TypeError\<close> and the working directory is the input directory.
\<close>

lemma read_data_world:
  assumes "startswith (cwd w) ''/''"
  shows "snd (read_data to_offset w d s e) = w \<or>
         (read_data to_offset w d s e = (Inl TypeError, chdir w d))"
proof -
  have dr: "daterange sd ed = Inl x \<Longrightarrow> x = TypeError" for sd ed x
    by (auto simp: daterange_def sub_days_def Let_def split: if_splits)
  show ?thesis
    using chdir_back[OF assms, of d]
    by (auto simp: read_data_def Let_def read_all_world dest: dr
        split: sum.splits option.splits)
qed

subsection \<open>The test state\<close>

lemma test_world_open_22:
  "open_file test_world ''data/rtraj_mosaic_1min_2019092200'' = Inr short_run"
  by code_simp

lemma test_world_open_24:
  "open_file test_world ''data/rtraj_mosaic_1min_2019092400'' = Inr (empty_run 3)"
  by code_simp

lemma read_traj_lines_24:
  "read_traj_lines sample_offset ''data/rtraj_mosaic_1min_2019092400'' (empty_run 3) =
   Inr (empty_table, sample_metadata 3)"
  by code_simp

lemma test_world_read_22:
  "read_traj sample_offset test_world ''data/rtraj_mosaic_1min_2019092200'' =
   (Inr (short_table, sample_metadata 5), test_world)"
  using read_traj_short
  by (simp only: read_traj_def test_world_open_22 sum.case sample_path_def)

lemma test_world_read_24:
  "read_traj sample_offset test_world ''data/rtraj_mosaic_1min_2019092400'' =
   (Inr (empty_table, sample_metadata 3), test_world)"
  by (simp only: read_traj_def test_world_open_24 sum.case read_traj_lines_24)

definition day_22 :: datetime where
  "day_22 = \<lparr>year = 2019, month = 9, day = 22, second_of_day = 0, utcoffset = None\<rparr>"

definition day_24 :: datetime where
  "day_24 = \<lparr>year = 2019, month = 9, day = 24, second_of_day = 0, utcoffset = None\<rparr>"

definition test_results :: "string \<Rightarrow> run_table \<times> metadata" where
  "test_results name =
     (if name = ''rtraj_mosaic_1min_2019092200'' then (short_table, sample_metadata 5)
      else (empty_table, sample_metadata 3))"

lemma test_world_dates:
  "fromisoformat ''2019-09-22'' = Inr day_22 \<and> fromisoformat ''2019-09-24'' = Inr day_24 \<and>
   isdir test_world ''data'' \<and> startswith (cwd test_world) ''/''"
  by code_simp

lemma test_world_run_files:
  "run_files test_world ''data'' (days day_22 day_24) =
   [''rtraj_mosaic_1min_2019092200'', ''rtraj_mosaic_1min_2019092400'']"
  by code_simp

lemma test_world_days: "map stamp (days day_22 day_24) = [''2019092200'', ''2019092300'', ''2019092400'']"
  by code_simp

subsection \<open>The data set of a range of days\<close>

text \<open>
  C6. For a directory that exists and start and end dates written \<open>YYYY-MM-DD\<close>
  that \<open>fromisoformat\<close> reads, \<open>read_data\<close> visits the days from the start date to
  the end date, both included, in ascending order: the ordinals of the days visited
  are the integers from the ordinal of the start to that of the end. For each day it
  takes the names of the directory that match \<open>rtraj*\<close> followed by the stamp of the
  day, and it returns the results of \<open>read_traj\<close> on these files, day by day, when
  each of them is a run file that \<open>read_traj\<close> reads. A day without a matching
  name adds nothing and raises nothing. The state is left as it was.
\<close>

theorem read_data_dataset:
  assumes "isdir w input_dir"
    and "startswith (cwd w) ''/''"
    and "length start_date = 10" and "fromisoformat start_date = Inr sd"
    and "length end_date = 10" and "fromisoformat end_date = Inr ed"
    and "\<forall>name\<in>set (run_files w input_dir (days sd ed)).
           fst (read_traj to_offset w (path_join input_dir name)) = Inr (f name)"
  shows "read_data to_offset w input_dir start_date (Some end_date) =
           (Inr (map f (run_files w input_dir (days sd ed))), w) \<and>
         map ordinal (days sd ed) = [ordinal sd..ordinal ed]"
proof -
  let ?names = "run_files w input_dir (days sd ed)"
  have dr: "daterange sd (Some ed) = Inr (days sd ed)"
    by (rule daterange_dates[OF assms(3,4,5,6)])
  have ra: "read_all to_offset w (map (path_join input_dir) ?names) = (Inr (map f ?names), w)"
    by (rule read_all_map[OF assms(7)])
  have "read_data to_offset w input_dir start_date (Some end_date) =
        read_all to_offset w (map (path_join input_dir) ?names)"
    using assms(1,4,6) dr chdir_back[OF assms(2), of input_dir]
    by (simp add: read_data_def Let_def glob_chdir)
  with ra days_ordinals[of sd ed] fromisoformat_date[OF assms(3,4)] show ?thesis by simp
qed


theorem read_data_dataset_witness:
  "isdir test_world ''data'' \<and> startswith (cwd test_world) ''/'' \<and>
   fromisoformat ''2019-09-22'' = Inr day_22 \<and> fromisoformat ''2019-09-24'' = Inr day_24 \<and>
   map stamp (days day_22 day_24) = [''2019092200'', ''2019092300'', ''2019092400''] \<and>
   run_files test_world ''data'' (days day_22 day_24) =
     [''rtraj_mosaic_1min_2019092200'', ''rtraj_mosaic_1min_2019092400''] \<and>
   read_data sample_offset test_world ''data'' ''2019-09-22'' (Some ''2019-09-24'') =
     (Inr [(short_table, sample_metadata 5), (empty_table, sample_metadata 3)], test_world)"
proof -
  note d = test_world_dates
  have reads: "\<forall>name\<in>set (run_files test_world ''data'' (days day_22 day_24)).
      fst (read_traj sample_offset test_world (path_join ''data'' name)) = Inr (test_results name)"
    by (simp add: test_world_run_files path_join_def test_world_read_22 test_world_read_24
        test_results_def)
  have l: "length ''2019-09-22'' = 10" "length ''2019-09-24'' = 10" by simp_all
  from read_data_dataset[where to_offset = sample_offset and f = test_results,
      OF d[THEN conjunct2, THEN conjunct2, THEN conjunct1]
         d[THEN conjunct2, THEN conjunct2, THEN conjunct2]
         l(1) d[THEN conjunct1] l(2) d[THEN conjunct2, THEN conjunct1] reads]
  have "read_data sample_offset test_world ''data'' ''2019-09-22'' (Some ''2019-09-24'') =
     (Inr [(short_table, sample_metadata 5), (empty_table, sample_metadata 3)], test_world)"
    by (simp add: test_world_run_files test_results_def)
  with d test_world_days test_world_run_files show ?thesis by blast
qed

text \<open>
  C7. \<open>read_data\<close> saves the working directory, changes to the input directory and
  changes back after the globbing, but not in a \<open>finally\<close> clause: an exception
  between the two calls of \<open>os.chdir\<close> leaves the process in the input directory.
  \<open>daterange\<close> raises \<open>TypeError\<close> there when one of the two dates has an offset
  from UTC and the other has none. Here the start date is aware and the end date
  naive: \<open>read_data\<close> raises \<open>TypeError\<close> and the working directory is no longer
  \<open>/home/user\<close> but \<open>/home/user/data\<close>. (By \<open>read_data_world\<close> this is the only
  path on which the state is not restored.)
\<close>

theorem read_data_leaves_working_directory:
  "cwd test_world = ''/home/user'' \<and>
   fst (read_data sample_offset test_world ''data'' ''2019-09-22T00:00:00+00:00''
          (Some ''2019-09-24'')) = Inl TypeError \<and>
   cwd (snd (read_data sample_offset test_world ''data'' ''2019-09-22T00:00:00+00:00''
          (Some ''2019-09-24''))) = ''/home/user/data''"
  by code_simp

text \<open>
  C8. \<open>read_traj\<close> reads the file of its path and changes nothing: the state after
  the call is the state before it, so that reading the same path again returns what
  the first read returned; and in two states in which the path opens to the same
  lines, \<open>read_traj\<close> returns the same table and dictionary.
\<close>

theorem read_traj_deterministic:
  "snd (read_traj to_offset w filepath) = w \<and>
   read_traj to_offset (snd (read_traj to_offset w filepath)) filepath =
     read_traj to_offset w filepath \<and>
   (open_file w filepath = open_file w' filepath \<longrightarrow>
      fst (read_traj to_offset w filepath) = fst (read_traj to_offset w' filepath))"
proof -
  have "open_file w filepath = open_file w' filepath \<Longrightarrow>
        fst (read_traj to_offset w filepath) = fst (read_traj to_offset w' filepath)"
    by (simp add: read_traj_def split: sum.splits)
  then show ?thesis by (simp add: read_traj_world)
qed

theorem read_traj_deterministic_witness:
  "open_file test_world ''/home/user/data/rtraj_mosaic_1min_2019092200'' =
     open_file (chdir test_world ''data'') ''/home/user/data/rtraj_mosaic_1min_2019092200'' \<and>
   fst (read_traj sample_offset test_world ''/home/user/data/rtraj_mosaic_1min_2019092200'') =
     fst (read_traj sample_offset (chdir test_world ''data'')
            ''/home/user/data/rtraj_mosaic_1min_2019092200'') \<and>
   read_traj sample_offset
     (snd (read_traj sample_offset test_world ''/home/user/data/rtraj_mosaic_1min_2019092200''))
     ''/home/user/data/rtraj_mosaic_1min_2019092200'' =
   read_traj sample_offset test_world ''/home/user/data/rtraj_mosaic_1min_2019092200''"
proof -
  have same: "open_file test_world ''/home/user/data/rtraj_mosaic_1min_2019092200'' =
     open_file (chdir test_world ''data'') ''/home/user/data/rtraj_mosaic_1min_2019092200''"
    by (simp add: open_file_def abspath_def chdir_def)
  from read_traj_deterministic[of sample_offset test_world
      "''/home/user/data/rtraj_mosaic_1min_2019092200''" "chdir test_world ''data''"] same
  show ?thesis by blast
qed

end
